theory Spec2Isabelle
  imports Main "HOL-Library.Multiset"
begin

section \<open>Data model of sublimelinter.py\<close>

text \<open>
  The plugin class \<open>SublimeLinter\<close> keeps four structures of its own
  (\<open>loaded_views\<close>, \<open>linted_views\<close>, \<open>view_syntax\<close>, \<open>last_hit_times\<close>) and works on
  the dictionaries of the module \<open>persist\<close> (\<open>errors\<close>, \<open>highlights\<close>, \<open>linters\<close>,
  \<open>settings\<close>, \<open>queue\<close>). View ids, line numbers and columns are Python ints. A hit
  time is a Python number that the code only compares (with another hit time, and with
  the default \<open>0\<close> of \<open>last_hit_times.get(vid, 0)\<close>), so it is an \<open>int\<close> here.
\<close>

type_synonym view_id = int
type_synonym hit_time = int

text \<open>A highlight region is (line, start offset, end offset).\<close>
type_synonym region = "int \<times> int \<times> int"
type_synonym highlight = "region list"
type_synonym highlight_set = "highlight list"

text \<open>
  One diagnostic of a line is (column, message): the code reads \<open>error[0]\<close> as the sort
  key and \<open>error[1]\<close> as the text. An errors dictionary maps a line to the list of its
  diagnostics; it is an association list in insertion order, the first pair of a key
  being its entry.
\<close>
type_synonym diagnostic = "int \<times> string"
type_synonym errors = "(int \<times> diagnostic list) list"

datatype py_error = IndexError | KeyError | ValueError | NoFileName

text \<open>A linter object, as far as \<open>highlight\<close> reads it: \<open>linter.highlight\<close> (an object
  or \<open>None\<close>) and \<open>linter.errors\<close>.\<close>
record linter =
  l_name :: string
  l_highlight :: "highlight option"
  l_errors :: errors

text \<open>What the handlers read of a view of the editor. A selection region is (a, b).\<close>
record view =
  vid :: view_id
  view_size :: nat
  view_syntax_name :: string
  sel :: "(int \<times> int) list"
  rowcol :: "int \<Rightarrow> int \<times> int"
  file_name :: "string option"
  project_file_name :: "string option"

record settings =
  lint_mode :: string
  show_errors_on_save :: bool

text \<open>
  What a handler reads of its surroundings while it runs: the views of all windows
  (\<open>util.apply_to_all_views\<close>, \<open>Linter.get_view\<close>), the settings a reload delivers
  (\<open>persist.load_settings\<close>), the linters the registry offers for a syntax, and the
  path of the plugin's own \<open>.sublimelinterrc\<close>.
\<close>
record env =
  env_views :: "view list"
  env_settings :: settings
  env_checkers :: "string \<Rightarrow> linter list"
  env_rc_path :: string

record state =
  loaded_views :: "view_id set"
  linted_views :: "view_id set"
  view_syntax :: "view_id \<rightharpoonup> string"
  last_hit_times :: "view_id \<rightharpoonup> hit_time"
  p_errors :: "view_id \<rightharpoonup> errors"
  p_highlights :: "view_id \<rightharpoonup> highlight_set"
  p_linters :: "view_id \<rightharpoonup> linter list"
  p_settings :: settings
  q_clock :: hit_time
  q_pending :: "view_id \<rightharpoonup> hit_time"
  marks :: "view_id \<Rightarrow> region list"
  status :: "view_id \<rightharpoonup> string"
  lint_view_calls :: "(view_id \<times> string option \<times> hit_time option) list"
  commands :: "(view_id \<times> string) list"

text \<open>\<open>__init__\<close>: empty sets and dictionaries. The settings are those of the
  configuration at start.\<close>
definition init_state :: "settings \<Rightarrow> state" where
  "init_state cfg =
     \<lparr>loaded_views = {}, linted_views = {}, view_syntax = Map.empty,
      last_hit_times = Map.empty, p_errors = Map.empty, p_highlights = Map.empty,
      p_linters = Map.empty, p_settings = cfg, q_clock = 0, q_pending = Map.empty,
      marks = (\<lambda>_. []), status = Map.empty, lint_view_calls = [], commands = []\<rparr>"

section \<open>Python primitives\<close>

text \<open>\<open>set.remove(x)\<close> and \<open>del d[k]\<close> raise \<open>KeyError\<close> on a missing element.\<close>
definition set_remove :: "view_id set \<Rightarrow> view_id \<Rightarrow> py_error + view_id set" where
  "set_remove A x = (if x \<in> A then Inr (A - {x}) else Inl KeyError)"

definition dict_del :: "(view_id \<rightharpoonup> 'v) \<Rightarrow> view_id \<Rightarrow> py_error + (view_id \<rightharpoonup> 'v)" where
  "dict_del d k = (if k \<in> dom d then Inr (d(k := None)) else Inl KeyError)"

text \<open>\<open>d.get(k, default)\<close>.\<close>
definition dict_get_default :: "(view_id \<rightharpoonup> 'v) \<Rightarrow> view_id \<Rightarrow> 'v \<Rightarrow> 'v" where
  "dict_get_default d k dflt = (case d k of None \<Rightarrow> dflt | Some v \<Rightarrow> v)"

text \<open>\<open>errors[line]\<close> for a line taken from the dictionary's own keys (the only use in
  the source, so the \<open>KeyError\<close> of a missing key cannot occur there).\<close>
definition errors_at :: "errors \<Rightarrow> int \<Rightarrow> diagnostic list" where
  "errors_at d line = (case map_of d line of None \<Rightarrow> [] | Some es \<Rightarrow> es)"

text \<open>\<open>errors.setdefault(line, []).extend(errs)\<close>: a missing line gets a fresh list,
  then the list of the line grows by \<open>errs\<close>.\<close>
fun setdefault_extend :: "errors \<Rightarrow> int \<Rightarrow> diagnostic list \<Rightarrow> errors" where
  "setdefault_extend [] line errs = [(line, errs)]"
| "setdefault_extend ((k, es) # d) line errs =
     (if k = line then (k, es @ errs) # d else (k, es) # setdefault_extend d line errs)"

text \<open>\<open>lines.index(x)\<close>: the first position of \<open>x\<close>, \<open>ValueError\<close> when there is none.\<close>
fun list_index :: "int list \<Rightarrow> int \<Rightarrow> py_error + nat" where
  "list_index [] x = Inl ValueError"
| "list_index (y # ys) x =
     (if y = x then Inr 0
      else (case list_index ys x of Inl e \<Rightarrow> Inl e | Inr i \<Rightarrow> Inr (Suc i)))"

text \<open>\<open>sep.join(xs)\<close>.\<close>
fun join :: "string \<Rightarrow> string list \<Rightarrow> string" where
  "join sep [] = []"
| "join sep [x] = x"
| "join sep (x # y # ys) = x @ sep @ join sep (y # ys)"

text \<open>The decimal text of a count, as \<open>'{}'.format(n)\<close> and \<open>'%i' % n\<close> give it for
  \<open>n \<ge> 0\<close> (every number formatted in the source is a length or a sum of lengths).\<close>
definition digit_char :: "nat \<Rightarrow> char" where
  "digit_char d = ''0123456789'' ! d"

fun str_nat :: "nat \<Rightarrow> string" where
  "str_nat n = (if n < 10 then [digit_char n] else str_nat (n div 10) @ [digit_char (n mod 10)])"

declare str_nat.simps [simp del]

text \<open>\<open>os.path.basename\<close> for a path with \<open>/\<close> as its separator.\<close>
definition basename :: "string \<Rightarrow> string" where
  "basename p = rev (takeWhile (\<lambda>c. c \<noteq> CHR ''/'') (rev p))"

section \<open>Collaborators outside sublimelinter.py\<close>

text \<open>\<open>persist.syntax(view)\<close>: the name of the view's syntax.\<close>
definition persist_syntax :: "view \<Rightarrow> string" where
  "persist_syntax v = view_syntax_name v"

text \<open>\<open>persist.load_settings()\<close>: the settings become what the configuration delivers.\<close>
definition persist_load_settings :: "env \<Rightarrow> state \<Rightarrow> state" where
  "persist_load_settings env s = s\<lparr>p_settings := env_settings env\<rparr>"

text \<open>Modelled from the spec: \<open>HighlightSet\<close> of lint/highlight.py, which is not
  part of the sources at hand: "a collection of regions plus a clear/draw contract".
  A fresh set is empty, \<open>add\<close> puts one checker's highlight into it, \<open>clear\<close> erases what
  is drawn in the view and \<open>draw\<close> draws every region of the set.\<close>
definition HighlightSet_new :: highlight_set where
  "HighlightSet_new = []"

definition HighlightSet_add :: "highlight_set \<Rightarrow> highlight \<Rightarrow> highlight_set" where
  "HighlightSet_add hs h = hs @ [h]"

definition HighlightSet_clear :: "state \<Rightarrow> view_id \<Rightarrow> state" where
  "HighlightSet_clear s v = s\<lparr>marks := (marks s)(v := [])\<rparr>"

definition HighlightSet_draw :: "highlight_set \<Rightarrow> state \<Rightarrow> view_id \<Rightarrow> state" where
  "HighlightSet_draw hs s v = s\<lparr>marks := (marks s)(v := marks s v @ concat hs)\<rparr>"

text \<open>Modelled from the spec: \<open>Linter.get_linters\<close> of lint/linter.py
  ("checkersFor(bufferId) -> sequence of checkers").\<close>
definition Linter_get_linters :: "state \<Rightarrow> view_id \<Rightarrow> linter list" where
  "Linter_get_linters s v = (case p_linters s v of None \<Rightarrow> [] | Some ls \<Rightarrow> ls)"

text \<open>Modelled from the spec: \<open>Linter.assign\<close> of lint/linter.py ("re-resolves which
  checker backends apply to the new syntax"; a buffer is in \<open>persist.linters\<close> when it
  is "bound to at least one checker"). The spec has no word on the \<open>reassign\<close> flag of
  the call sites; it is read as: without it a buffer that is bound keeps its linters.\<close>
definition Linter_assign :: "env \<Rightarrow> state \<Rightarrow> view \<Rightarrow> bool \<Rightarrow> state" where
  "Linter_assign env s view reassign =
     (let v = vid view; ls = env_checkers env (persist_syntax view) in
      if \<not> reassign \<and> v \<in> dom (p_linters s) then s
      else if ls = [] then s\<lparr>p_linters := (p_linters s)(v := None)\<rparr>
      else s\<lparr>p_linters := (p_linters s)(v \<mapsto> ls)\<rparr>)"

text \<open>Modelled from the spec: \<open>Linter.clear_view\<close> of lint/linter.py ("discards any
  previously applied highlights/diagnostics for that buffer (clears rendering
  immediately, does not wait for a new analysis)").\<close>
definition Linter_clear_view :: "state \<Rightarrow> view \<Rightarrow> state" where
  "Linter_clear_view s view =
     (let v = vid view in
      s\<lparr>p_errors := (p_errors s)(v := None),
        p_highlights := (p_highlights s)(v := None),
        marks := (marks s)(v := []),
        status := (status s)(v := None)\<rparr>)"

text \<open>Modelled from the spec: \<open>linter.clear()\<close> of lint/linter.py ("every bound checker
  for the buffer is reset to an empty-result state").\<close>
definition linter_clear :: "linter \<Rightarrow> linter" where
  "linter_clear l = l\<lparr>l_highlight := None, l_errors := []\<rparr>"

text \<open>Modelled from the spec: \<open>persist.queue.hit\<close> of lint/queue.py ("mints a new
  timestamp strictly greater than any previously minted value for this process ... and
  enqueues a debounced analysis request for the buffer. Multiple hits for the same
  buffer within the debounce window collapse into one pending request"). \<open>q_clock\<close> is
  the greatest timestamp minted so far.\<close>
definition queue_hit :: "state \<Rightarrow> view \<Rightarrow> hit_time \<times> state" where
  "queue_hit s view =
     (let t = q_clock s + 1 in
      (t, s\<lparr>q_clock := t, q_pending := (q_pending s)(vid view \<mapsto> t)\<rparr>))"

text \<open>Modelled from the spec: \<open>Linter.get_view\<close> of lint/linter.py ("operations
  referencing a BufferId with no live buffer are no-ops"): the view of that id among
  the open views, if there is one.\<close>
definition Linter_get_view :: "env \<Rightarrow> view_id \<Rightarrow> view option" where
  "Linter_get_view env v = find (\<lambda>w. vid w = v) (env_views env)"

text \<open>\<open>Linter.lint_view(view_id, filename, code, sections, hit_time, callback)\<close> starts
  the asynchronous analysis; the call is recorded with the hit time it carries. The
  code and the sections are read from the view and handed on unchanged.\<close>
definition Linter_lint_view :: "state \<Rightarrow> view_id \<Rightarrow> string option \<Rightarrow> hit_time option \<Rightarrow> state" where
  "Linter_lint_view s v filename hit_time =
     s\<lparr>lint_view_calls := lint_view_calls s @ [(v, filename, hit_time)]\<rparr>"

text \<open>Modelled from the spec: \<open>persist.view_did_close\<close> of lint/persist.py ("On buffer
  close, its BufferState and all derived caches are deleted entirely").\<close>
definition persist_view_did_close :: "state \<Rightarrow> view_id \<Rightarrow> state" where
  "persist_view_did_close s v =
     s\<lparr>p_errors := (p_errors s)(v := None),
       p_highlights := (p_highlights s)(v := None),
       p_linters := (p_linters s)(v := None)\<rparr>"

text \<open>\<open>view.set_status('sublimelinter', text)\<close>, \<open>view.erase_status('sublimelinter')\<close>
  and \<open>view.run_command(name)\<close> of the editor.\<close>
definition set_status :: "state \<Rightarrow> view_id \<Rightarrow> string \<Rightarrow> state" where
  "set_status s v txt = s\<lparr>status := (status s)(v \<mapsto> txt)\<rparr>"

definition erase_status :: "state \<Rightarrow> view_id \<Rightarrow> state" where
  "erase_status s v = s\<lparr>status := (status s)(v := None)\<rparr>"

definition run_command :: "state \<Rightarrow> view_id \<Rightarrow> string \<Rightarrow> state" where
  "run_command s v name = s\<lparr>commands := commands s @ [(v, name)]\<rparr>"

section \<open>The methods of SublimeLinter\<close>

subsection \<open>lint, clear, check_syntax, hit\<close>

text \<open>\<open>lint(view_id, hit_time=None, callback=None)\<close>: nothing happens for an id with
  no view; otherwise the analysis is started with the hit time given, \<open>None\<close> when the
  caller passes none. Every call in the file leaves \<open>callback\<close> at its default,
  \<open>self.highlight\<close>.\<close>
definition lint :: "env \<Rightarrow> state \<Rightarrow> view_id \<Rightarrow> hit_time option \<Rightarrow> state" where
  "lint env s view_id hit_time =
     (case Linter_get_view env view_id of
        None \<Rightarrow> s
      | Some view \<Rightarrow> Linter_lint_view s view_id (file_name view) hit_time)"

definition clear :: "state \<Rightarrow> view \<Rightarrow> state" where
  "clear s view = Linter_clear_view s view"

definition check_syntax :: "env \<Rightarrow> state \<Rightarrow> view \<Rightarrow> bool \<times> state" where
  "check_syntax env s view =
     (let v = vid view; syntax = persist_syntax view in
      if v \<notin> dom (view_syntax s) \<or> view_syntax s v \<noteq> Some syntax then
        (True,
         clear (Linter_assign env (s\<lparr>view_syntax := (view_syntax s)(v \<mapsto> syntax)\<rparr>) view True)
           view)
      else (False, s))"

text \<open>The loop \<open>for linter in Linter.get_linters(vid): linter.clear()\<close> resets the
  linter objects of the view where they are stored.\<close>
definition clear_linters :: "state \<Rightarrow> view_id \<Rightarrow> state" where
  "clear_linters s v =
     (case p_linters s v of
        None \<Rightarrow> s
      | Some ls \<Rightarrow> s\<lparr>p_linters := (p_linters s)(v \<mapsto> map linter_clear ls)\<rparr>)"

text \<open>\<open>hit\<close> has no \<open>return\<close> with a value: the timestamp of \<open>persist.queue.hit\<close> is
  stored in \<open>last_hit_times\<close>, and an empty view leaves the method before that line.\<close>
definition hit :: "env \<Rightarrow> state \<Rightarrow> view \<Rightarrow> state" where
  "hit env s view =
     (let v = vid view;
          s1 = snd (check_syntax env s view);
          s2 = s1\<lparr>linted_views := insert v (linted_views s1)\<rparr>
      in if view_size view = 0 then clear_linters s2 v
         else (let (t, s3) = queue_hit s2 view
               in s3\<lparr>last_hit_times := (last_hit_times s3)(v \<mapsto> t)\<rparr>))"

text \<open>\<open>lint_all_views\<close>: \<open>hit\<close> for every view that has linters.\<close>
definition lint_all_views :: "env \<Rightarrow> state \<Rightarrow> state" where
  "lint_all_views env s =
     fold (\<lambda>view st. if vid view \<in> dom (p_linters st) then hit env st view else st)
       (env_views env) s"

subsection \<open>on_selection_modified_async: the status text\<close>

definition region_begin :: "int \<times> int \<Rightarrow> int" where
  "region_begin r = min (fst r) (snd r)"

text \<open>\<open>view.rowcol(view.sel()[0].begin())[0]\<close>: \<open>IndexError\<close> for an empty selection.\<close>
definition first_sel_line :: "view \<Rightarrow> py_error + int" where
  "first_sel_line view =
     (case sel view of
        [] \<Rightarrow> Inl IndexError
      | r # _ \<Rightarrow> Inr (fst (rowcol view (region_begin r))))"

text \<open>The text computed for a non-empty errors dictionary and the line of the cursor.\<close>
definition status_text :: "errors \<Rightarrow> int \<Rightarrow> py_error + string" where
  "status_text errors lineno =
     (let lines = sort (map fst errors);
          counts = map (\<lambda>line. length (errors_at errors line)) lines;
          count = sum_list counts;
          plural = (if count > 1 then ''s'' else '''')
      in if lineno \<in> set (map fst errors) then
           (let line_errors = map snd (sort_key fst (errors_at errors lineno)) in
            if plural \<noteq> '''' then
              (case list_index lines lineno of
                 Inl e \<Rightarrow> Inl e
               | Inr index \<Rightarrow>
                   (let first = sum_list (take index counts) + 1 in
                    if length line_errors > 1 then
                      (let last = first + length line_errors - 1 in
                       Inr (str_nat first @ ''-'' @ str_nat last @ '' of '' @ str_nat count
                            @ '' errors: '' @ join ''; '' line_errors))
                    else
                      Inr (str_nat first @ '' of '' @ str_nat count @ '' errors: ''
                           @ join ''; '' line_errors)))
            else Inr (''Error: '' @ join ''; '' line_errors))
         else Inr (str_nat count @ '' error'' @ plural))"

definition on_selection_modified_async :: "state \<Rightarrow> view \<Rightarrow> py_error + state" where
  "on_selection_modified_async s view =
     (let v = vid view in
      case (case first_sel_line view of
              Inr l \<Rightarrow> Inr l
            | Inl e \<Rightarrow> if e = IndexError then Inr (- 1) else Inl e) of
        Inl e \<Rightarrow> Inl e
      | Inr lineno \<Rightarrow>
          (case p_errors s v of
             None \<Rightarrow> Inr s
           | Some errors \<Rightarrow>
               if errors \<noteq> [] then
                 (case status_text errors lineno of
                    Inl e \<Rightarrow> Inl e
                  | Inr txt \<Rightarrow> Inr (set_status s v txt))
               else Inr (erase_status s v)))"

subsection \<open>highlight: the completion of an analysis\<close>

text \<open>One round of the loop over the linters: the highlight of the linter joins the
  set, and each line of its errors extends the merged dictionary.\<close>
definition merge_errors :: "errors \<Rightarrow> errors \<Rightarrow> errors" where
  "merge_errors linter_errors errors =
     fold (\<lambda>(line, errs) d. setdefault_extend d line errs) linter_errors errors"

definition highlight_step :: "linter \<Rightarrow> highlight_set \<times> errors \<Rightarrow> highlight_set \<times> errors" where
  "highlight_step linter acc =
     (let (highlights, errors) = acc in
      ((case l_highlight linter of
          None \<Rightarrow> highlights
        | Some h \<Rightarrow> HighlightSet_add highlights h),
       (if l_errors linter \<noteq> [] then merge_errors (l_errors linter) errors else errors)))"

text \<open>The loop \<open>for linter in linters\<close>, from a fresh \<open>HighlightSet()\<close> and \<open>errors = {}\<close>.\<close>
definition merge_results :: "linter list \<Rightarrow> highlight_set \<times> errors" where
  "merge_results linters = fold highlight_step linters (HighlightSet_new, [])"

text \<open>The fresh set is stored in \<open>persist.highlights[vid]\<close> by the first assignment of
  the method, before the loop fills it and before the hit times are compared.\<close>
definition highlight :: "state \<Rightarrow> view \<Rightarrow> linter list \<Rightarrow> hit_time option \<Rightarrow> py_error + state" where
  "highlight s view linters hit_time =
     (let v = vid view;
          (highlights, errors) = merge_results linters;
          s1 = s\<lparr>p_highlights := (p_highlights s)(v \<mapsto> highlights)\<rparr>
      in if (case hit_time of
               None \<Rightarrow> False
             | Some t \<Rightarrow> dict_get_default (last_hit_times s1) v 0 > t) then Inr s1
         else
           (let s2 = HighlightSet_clear s1 v;
                s3 = HighlightSet_draw highlights s2 v;
                s4 = s3\<lparr>p_errors := (p_errors s3)(v \<mapsto> errors)\<rparr>
            in on_selection_modified_async s4 view))"

subsection \<open>The event handlers\<close>

text \<open>\<open>on_open_settings\<close> and \<open>on_pre_save\<close> only call \<open>persist.update_user_settings\<close>
  and \<open>persist.copy_settings\<close> (for a settings file); they touch nothing of the state
  kept here.\<close>
definition on_open_settings :: "state \<Rightarrow> view \<Rightarrow> state" where
  "on_open_settings s view = s"

definition on_pre_save :: "state \<Rightarrow> view \<Rightarrow> state" where
  "on_pre_save s view = s"

definition on_new :: "env \<Rightarrow> state \<Rightarrow> view \<Rightarrow> state" where
  "on_new env s view =
     (let s0 = on_open_settings s view;
          v = vid view;
          s1 = s0\<lparr>loaded_views := insert v (loaded_views s0)\<rparr>;
          s2 = s1\<lparr>view_syntax := (view_syntax s1)(v \<mapsto> persist_syntax view)\<rparr>
      in Linter_assign env s2 view False)"

definition on_load :: "env \<Rightarrow> state \<Rightarrow> view \<Rightarrow> state" where
  "on_load env s view = on_new env s view"

definition on_modified :: "env \<Rightarrow> state \<Rightarrow> view \<Rightarrow> state" where
  "on_modified env s view =
     (if vid view \<notin> dom (p_linters s) then
        (let (syntax_changed, s1) = check_syntax env s view in
         if \<not> syntax_changed then s1
         else if syntax_changed \<or> lint_mode (p_settings s1) = ''background''
              then hit env s1 view else clear s1 view)
      else
        (let syntax_changed = False in
         if syntax_changed \<or> lint_mode (p_settings s) = ''background''
         then hit env s view else clear s view))"

definition on_activated :: "env \<Rightarrow> state \<Rightarrow> view \<Rightarrow> py_error + state" where
  "on_activated env s view =
     (let s0 = persist_load_settings env s;
          s1 = snd (check_syntax env s0 view);
          view_id = vid view;
          s4 = (if view_id \<notin> linted_views s1 then
                  (let s2 = (if view_id \<notin> loaded_views s1 then on_new env s1 view else s1)
                   in if lint_mode (p_settings s2) \<in> {''background'', ''load/save''}
                      then hit env s2 view else s2)
                else s1)
      in on_selection_modified_async s4 view)"

text \<open>\<open>on_post_save\<close>. \<open>os.path.basename(view.file_name())\<close> raises for a view with no
  file name.\<close>
definition on_post_save :: "env \<Rightarrow> state \<Rightarrow> view \<Rightarrow> py_error + state" where
  "on_post_save env s view =
     (if project_file_name view = file_name view then Inr (lint_all_views env s)
      else
        (case file_name view of
           None \<Rightarrow> Inl NoFileName
         | Some fname \<Rightarrow>
             if basename fname = ''.sublimelinterrc'' then
               (if fname = env_rc_path env then Inr (persist_load_settings env s)
                else Inr (lint_all_views env s))
             else
               (let (syntax_changed, s1) = check_syntax env s view;
                    v = vid view;
                    mode = lint_mode (p_settings s1);
                    show_errors = show_errors_on_save (p_settings s1);
                    (s3, show_errors') =
                      (if syntax_changed then
                         (let s2 = clear s1 view in
                          if v \<in> dom (p_linters s2) then
                            (if mode \<noteq> ''manual'' then (lint env s2 v None, show_errors)
                             else (s2, False))
                          else (s2, False))
                       else
                         (if show_errors \<or> mode \<in> {''load/save'', ''save only''}
                          then (lint env s1 v None, show_errors)
                          else if mode = ''manual'' then (s1, False)
                          else (s1, show_errors)))
                in Inr (if show_errors'
                        then run_command s3 v ''sublimelinter_show_all_errors''
                        else s3))))"

text \<open>\<open>on_close\<close>: each removal stands behind its membership test.\<close>
definition on_close :: "state \<Rightarrow> view \<Rightarrow> py_error + state" where
  "on_close s view =
     (let v = vid view in
      case (if v \<in> loaded_views s then set_remove (loaded_views s) v
            else Inr (loaded_views s)) of
        Inl e \<Rightarrow> Inl e
      | Inr loaded \<Rightarrow>
      (case (if v \<in> linted_views s then set_remove (linted_views s) v
             else Inr (linted_views s)) of
         Inl e \<Rightarrow> Inl e
       | Inr linted \<Rightarrow>
       (case (if v \<in> dom (view_syntax s) then dict_del (view_syntax s) v
              else Inr (view_syntax s)) of
          Inl e \<Rightarrow> Inl e
        | Inr syntaxes \<Rightarrow>
        (case (if v \<in> dom (last_hit_times s) then dict_del (last_hit_times s) v
               else Inr (last_hit_times s)) of
           Inl e \<Rightarrow> Inl e
         | Inr hit_times \<Rightarrow>
             Inr (persist_view_did_close
                    (s\<lparr>loaded_views := loaded, linted_views := linted,
                       view_syntax := syntaxes, last_hit_times := hit_times\<rparr>) v)))))"

subsection \<open>Runs of the plugin\<close>

text \<open>Modelled from the spec: the worker of \<open>persist.queue\<close> (lint/queue.py), started
  by \<open>persist.queue.start(self.lint)\<close> ("registers the completion callback invoked once
  per executed request"): the pending request of a view leaves the queue and \<open>lint\<close> is
  called with its timestamp.\<close>
definition queue_fire :: "env \<Rightarrow> state \<Rightarrow> view_id \<Rightarrow> state" where
  "queue_fire env s v =
     (case q_pending s v of
        None \<Rightarrow> s
      | Some t \<Rightarrow> lint env (s\<lparr>q_pending := (q_pending s)(v := None)\<rparr>) v (Some t))"

text \<open>What can happen to the plugin: the editor calls a handler, \<open>hit\<close> or
  \<open>lint_all_views\<close> is called from outside (\<open>on_settings_updated\<close> with \<open>relint\<close> is
  \<open>lint_all_views\<close>; without it, it only has \<open>Linter.redraw_all\<close> redraw), the queue starts
  a pending analysis, and an analysis completes and calls \<open>highlight\<close> back with its
  linters and the hit time it was started with. \<open>__init__\<close> ends with \<open>on_activated\<close> for
  the active view, if there is a window: a run from \<open>init_state\<close> then starts with that
  event.\<close>
datatype event =
    OnModified view
  | OnLoad view
  | OnNew view
  | OnActivated view
  | OnSelectionModified view
  | OnPreSave view
  | OnPostSave view
  | OnClose view
  | Hit view
  | LintAllViews
  | QueueFire view_id
  | Completion view "linter list" "hit_time option"

fun step :: "env \<Rightarrow> state \<Rightarrow> event \<Rightarrow> py_error + state" where
  "step env s (OnModified view) = Inr (on_modified env s view)"
| "step env s (OnLoad view) = Inr (on_load env s view)"
| "step env s (OnNew view) = Inr (on_new env s view)"
| "step env s (OnActivated view) = on_activated env s view"
| "step env s (OnSelectionModified view) = on_selection_modified_async s view"
| "step env s (OnPreSave view) = Inr (on_pre_save s view)"
| "step env s (OnPostSave view) = on_post_save env s view"
| "step env s (OnClose view) = on_close s view"
| "step env s (Hit view) = Inr (hit env s view)"
| "step env s LintAllViews = Inr (lint_all_views env s)"
| "step env s (QueueFire v) = Inr (queue_fire env s v)"
| "step env s (Completion view linters hit_time) = highlight s view linters hit_time"

text \<open>A run is a list of events, each with the surroundings it meets; an exception
  ends it.\<close>
fun run :: "state \<Rightarrow> (env \<times> event) list \<Rightarrow> py_error + state" where
  "run s [] = Inr s"
| "run s ((env, e) # es) = (case step env s e of Inl err \<Rightarrow> Inl err | Inr s' \<Rightarrow> run s' es)"

text \<open>The event closes the view of this id.\<close>
fun closes :: "view_id \<Rightarrow> event \<Rightarrow> bool" where
  "closes v (OnClose view) = (vid view = v)"
| "closes v _ = False"

text \<open>The order of two readings of \<open>last_hit_times\<close> for one view: no entry comes
  before every entry.\<close>
fun hit_time_le :: "hit_time option \<Rightarrow> hit_time option \<Rightarrow> bool" where
  "hit_time_le None _ = True"
| "hit_time_le (Some a) None = False"
| "hit_time_le (Some a) (Some b) = (a \<le> b)"

text \<open>Every stored hit time was minted by the queue: none is beyond its clock.\<close>
definition times_minted :: "state \<Rightarrow> bool" where
  "times_minted s = (\<forall>v t. last_hit_times s v = Some t \<longrightarrow> t \<le> q_clock s)"

section \<open>Derived quantities and example inputs\<close>

text \<open>The number of diagnostics of an errors dictionary, over all its lines.\<close>
definition total_count :: "errors \<Rightarrow> nat" where
  "total_count d = sum_list (map (\<lambda>p. length (snd p)) d)"

text \<open>The dictionary of the spec's example, \<open>{2: [bad indent], 5: [unused var, missing
  semicolon]}\<close>, with the columns of the three diagnostics left open.\<close>
definition spec_example :: "int \<Rightarrow> int \<Rightarrow> int \<Rightarrow> errors" where
  "spec_example c1 c2 c3 =
     [(2, [(c1, ''bad indent'')]), (5, [(c2, ''unused var''), (c3, ''missing semicolon'')])]"

text \<open>A view of 80 columns a line, with a given id, size and selection.\<close>
definition example_view :: "view_id \<Rightarrow> nat \<Rightarrow> (int \<times> int) list \<Rightarrow> view" where
  "example_view v n selection =
     \<lparr>vid = v, view_size = n, view_syntax_name = ''Python'', sel = selection,
      rowcol = (\<lambda>p. (p div 80, p mod 80)), file_name = Some ''/home/u/a.py'',
      project_file_name = None\<rparr>"

definition example_settings :: settings where
  "example_settings = \<lparr>lint_mode = ''background'', show_errors_on_save = False\<rparr>"

text \<open>A state in which \<open>persist.errors\<close> holds a given dictionary for a view.\<close>
definition with_errors :: "state \<Rightarrow> view_id \<Rightarrow> errors \<Rightarrow> state" where
  "with_errors s v d = s\<lparr>p_errors := (p_errors s)(v \<mapsto> d)\<rparr>"

text \<open>The surroundings of the examples: one open view, and a registry with one linter
  for the syntax Python.\<close>
definition example_env :: env where
  "example_env =
     \<lparr>env_views = [example_view 1 10 []], env_settings = example_settings,
      env_checkers = (\<lambda>syntax. if syntax = ''Python''
                        then [\<lparr>l_name = ''flake8'', l_highlight = None, l_errors = []\<rparr>]
                        else []),
      env_rc_path = ''/plugin/.sublimelinterrc''\<rparr>"

text \<open>What a step keeps, for the view \<open>v\<close>: the clock of the queue does not go back, and
  from a state whose hit times were all minted the step leads to such a state, the hit
  time of \<open>v\<close> not going back.\<close>
definition keeps :: "view_id \<Rightarrow> state \<Rightarrow> state \<Rightarrow> bool" where
  "keeps v s s' =
     (q_clock s \<le> q_clock s' \<and>
      (times_minted s \<longrightarrow>
         times_minted s' \<and> hit_time_le (last_hit_times s v) (last_hit_times s' v)))"

text \<open>Two results of one linter: a first analysis, and a second one of other text.\<close>
definition linter_A :: linter where
  "linter_A = \<lparr>l_name = ''flake8'', l_highlight = Some [(0, 0, 3)], l_errors = [(0, [(0, ''first'')])]\<rparr>"

definition linter_B :: linter where
  "linter_B = \<lparr>l_name = ''flake8'', l_highlight = Some [(4, 50, 53)], l_errors = [(4, [(2, ''second'')])]\<rparr>"

text \<open>The state \<open>on_close\<close> leads to.\<close>
definition closed_state :: "state \<Rightarrow> view \<Rightarrow> state" where
  "closed_state s view =
     persist_view_did_close
       (s\<lparr>loaded_views := loaded_views s - {vid view},
          linted_views := linted_views s - {vid view},
          view_syntax := (view_syntax s)(vid view := None),
          last_hit_times := (last_hit_times s)(vid view := None)\<rparr>) (vid view)"

text \<open>What one linter adds to a line of the merged dictionary.\<close>
definition line_contrib :: "linter \<Rightarrow> int \<Rightarrow> diagnostic list" where
  "line_contrib l line = concat (map snd (filter (\<lambda>p. fst p = line) (l_errors l)))"

text \<open>The line \<open>on_selection_modified_async\<close> computes for a view: the line of its first
  selection, \<open>-1\<close> without one.\<close>
definition cursor_line :: "view \<Rightarrow> int" where
  "cursor_line view = (case first_sel_line view of Inr l \<Rightarrow> l | Inl e \<Rightarrow> - 1)"

text \<open>Two linters that each report one diagnostic on line 5, at a given column.\<close>
definition linter_P :: "int \<Rightarrow> linter" where
  "linter_P col = \<lparr>l_name = ''pyflakes'', l_highlight = None,
                   l_errors = [(5, [(col, ''unused import'')])]\<rparr>"

definition linter_Q :: "int \<Rightarrow> linter" where
  "linter_Q col = \<lparr>l_name = ''pep8'', l_highlight = None,
                   l_errors = [(5, [(col, ''line too long'')])]\<rparr>"

section \<open>Basic facts\<close>

subsection \<open>Formatting and lookups\<close>

lemma str_nat_small: "n < 10 \<Longrightarrow> str_nat n = [digit_char n]"
  by (simp add: str_nat.simps)

lemma str_nat_Suc [simp]:
  "str_nat (Suc 0) = ''1''" "str_nat (Suc (Suc 0)) = ''2''" "str_nat (Suc (Suc (Suc 0))) = ''3''"
  by (simp_all add: str_nat_small digit_char_def)

lemma str_nat_num [simp]:
  "str_nat 0 = ''0''" "str_nat 1 = ''1''" "str_nat 2 = ''2''" "str_nat 3 = ''3''"
  by (simp_all add: str_nat_small digit_char_def)

lemma list_index_Inr: "x \<in> set xs \<Longrightarrow> \<exists>i. list_index xs x = Inr i"
  by (induction xs) auto

text \<open>Over a dictionary (distinct keys) the count of the status line is the number of
  all diagnostics.\<close>
lemma count_sorted_keys:
  assumes "distinct (map fst d)"
  shows "sum_list (map (\<lambda>line. length (errors_at d line)) (sort (map fst d))) = total_count d"
proof -
  let ?f = "\<lambda>line. length (errors_at d line)"
  have "sum_list (map ?f (sort (map fst d))) = sum_mset (image_mset ?f (mset (sort (map fst d))))"
    by (metis mset_map sum_mset_sum_list)
  also have "\<dots> = sum_mset (image_mset ?f (mset (map fst d)))" by simp
  also have "\<dots> = sum_list (map ?f (map fst d))" by (metis mset_map sum_mset_sum_list)
  also have "map ?f (map fst d) = map (\<lambda>p. length (snd p)) d"
    using assms by (auto simp: errors_at_def)
  finally show ?thesis by (simp add: total_count_def)
qed

subsection \<open>The status line never raises\<close>

text \<open>\<open>lines.index(lineno)\<close> is reached only behind \<open>lineno in errors\<close>, so its
  \<open>ValueError\<close> cannot occur.\<close>
lemma status_text_total: "\<exists>msg. status_text d lineno = Inr msg"
proof (cases "lineno \<in> set (map fst d)")
  case True
  then have "lineno \<in> set (sort (map fst d))" by simp
  then obtain i where "list_index (sort (map fst d)) lineno = Inr i"
    using list_index_Inr by blast
  then show ?thesis using True by (simp add: status_text_def Let_def)
next
  case False
  then show ?thesis by (simp add: status_text_def Let_def)
qed

lemma osm_changes_status_only:
  "\<exists>st. on_selection_modified_async s view = Inr (s\<lparr>status := st\<rparr>)"
proof -
  obtain lineno where l: "(case first_sel_line view of Inr l \<Rightarrow> Inr l
            | Inl e \<Rightarrow> if e = IndexError then Inr (- 1) else Inl e) = (Inr lineno :: py_error + int)"
    by (cases "sel view") (auto simp: first_sel_line_def)
  show ?thesis
  proof (cases "p_errors s (vid view)")
    case None
    have "s = s\<lparr>status := status s\<rparr>" by simp
    with None l show ?thesis unfolding on_selection_modified_async_def Let_def
      by (metis option.simps(4) sum.simps(6))
  next
    case (Some d)
    obtain msg where "status_text d lineno = Inr msg" using status_text_total by blast
    with Some l show ?thesis
      by (auto simp: on_selection_modified_async_def Let_def set_status_def erase_status_def)
  qed
qed

lemma osm_no_selection:
  assumes "sel view = []" "p_errors s (vid view) = Some d" "d \<noteq> []"
    "status_text d (- 1) = Inr msg"
  shows "on_selection_modified_async s view = Inr (set_status s (vid view) msg)"
  using assms by (simp add: on_selection_modified_async_def first_sel_line_def Let_def)

lemma osm_cursor_line:
  assumes "first_sel_line view = Inr l" "p_errors s (vid view) = Some d" "d \<noteq> []"
    "status_text d l = Inr msg"
  shows "on_selection_modified_async s view = Inr (set_status s (vid view) msg)"
  using assms by (simp add: on_selection_modified_async_def Let_def)

lemma osm_empty_mapping:
  assumes "p_errors s (vid view) = Some []"
  shows "on_selection_modified_async s view = Inr (erase_status s (vid view))"
proof (cases "sel view")
  case Nil
  then show ?thesis using assms
    by (simp add: on_selection_modified_async_def first_sel_line_def Let_def)
next
  case (Cons r rs)
  then show ?thesis using assms
    by (simp add: on_selection_modified_async_def first_sel_line_def Let_def)
qed

subsection \<open>The two ways out of highlight\<close>

lemma highlight_untimed:
  "highlight s view linters None =
     on_selection_modified_async
       (s\<lparr>p_highlights := (p_highlights s)(vid view \<mapsto> fst (merge_results linters)),
          marks := (marks s)(vid view := concat (fst (merge_results linters))),
          p_errors := (p_errors s)(vid view \<mapsto> snd (merge_results linters))\<rparr>) view"
  by (simp add: highlight_def Let_def split_beta HighlightSet_clear_def HighlightSet_draw_def)

lemma highlight_fresh:
  assumes "dict_get_default (last_hit_times s) (vid view) 0 \<le> t"
  shows "highlight s view linters (Some t) =
     on_selection_modified_async
       (s\<lparr>p_highlights := (p_highlights s)(vid view \<mapsto> fst (merge_results linters)),
          marks := (marks s)(vid view := concat (fst (merge_results linters))),
          p_errors := (p_errors s)(vid view \<mapsto> snd (merge_results linters))\<rparr>) view"
  using assms
  by (simp add: highlight_def Let_def split_beta HighlightSet_clear_def HighlightSet_draw_def)

lemma highlight_stale:
  assumes "t < dict_get_default (last_hit_times s) (vid view) 0"
  shows "highlight s view linters (Some t) =
     Inr (s\<lparr>p_highlights := (p_highlights s)(vid view \<mapsto> fst (merge_results linters))\<rparr>)"
  using assms by (simp add: highlight_def Let_def split_beta)

subsection \<open>on_close in one step\<close>

lemma on_close_result:
  "on_close s view =
     Inr (persist_view_did_close
            (s\<lparr>loaded_views := loaded_views s - {vid view},
               linted_views := linted_views s - {vid view},
               view_syntax := (view_syntax s)(vid view := None),
               last_hit_times := (last_hit_times s)(vid view := None)\<rparr>) (vid view))"
proof -
  have a: "(if vid view \<in> loaded_views s then set_remove (loaded_views s) (vid view)
            else Inr (loaded_views s)) = Inr (loaded_views s - {vid view})"
    by (simp add: set_remove_def)
  have b: "(if vid view \<in> linted_views s then set_remove (linted_views s) (vid view)
            else Inr (linted_views s)) = Inr (linted_views s - {vid view})"
    by (simp add: set_remove_def)
  have c: "(if vid view \<in> dom (view_syntax s) then dict_del (view_syntax s) (vid view)
            else Inr (view_syntax s)) = Inr ((view_syntax s)(vid view := None))"
    by (auto simp: dict_del_def)
  have d: "(if vid view \<in> dom (last_hit_times s) then dict_del (last_hit_times s) (vid view)
            else Inr (last_hit_times s)) = Inr ((last_hit_times s)(vid view := None))"
    by (auto simp: dict_del_def)
  show ?thesis unfolding on_close_def Let_def a b c d by simp
qed

section \<open>What the methods do to the hit times and the clock\<close>

lemma hit_time_le_refl [simp]: "hit_time_le a a"
  by (cases a) auto

lemma hit_time_le_trans: "hit_time_le a b \<Longrightarrow> hit_time_le b c \<Longrightarrow> hit_time_le a c"
  by (cases a; cases b; cases c) auto

lemma keeps_refl [simp]: "keeps v s s"
  by (simp add: keeps_def)

lemma keeps_trans: "keeps v s s1 \<Longrightarrow> keeps v s1 s2 \<Longrightarrow> keeps v s s2"
  unfolding keeps_def using hit_time_le_trans by (metis order_trans)

lemma keeps_same:
  "last_hit_times s' = last_hit_times s \<Longrightarrow> q_clock s' = q_clock s \<Longrightarrow> keeps v s s'"
  by (simp add: keeps_def times_minted_def)

lemma check_syntax_frame [simp]:
  "last_hit_times (snd (check_syntax env s view)) = last_hit_times s"
  "q_clock (snd (check_syntax env s view)) = q_clock s"
  "q_pending (snd (check_syntax env s view)) = q_pending s"
  "lint_view_calls (snd (check_syntax env s view)) = lint_view_calls s"
  "loaded_views (snd (check_syntax env s view)) = loaded_views s"
  "linted_views (snd (check_syntax env s view)) = linted_views s"
  "p_settings (snd (check_syntax env s view)) = p_settings s"
  by (simp_all add: check_syntax_def Let_def clear_def Linter_clear_view_def Linter_assign_def)

lemma clear_frame [simp]:
  "last_hit_times (clear s view) = last_hit_times s"
  "q_clock (clear s view) = q_clock s"
  "q_pending (clear s view) = q_pending s"
  "lint_view_calls (clear s view) = lint_view_calls s"
  "p_linters (clear s view) = p_linters s"
  "p_settings (clear s view) = p_settings s"
  by (simp_all add: clear_def Linter_clear_view_def Let_def)

lemma clear_linters_frame [simp]:
  "last_hit_times (clear_linters s v) = last_hit_times s"
  "q_clock (clear_linters s v) = q_clock s"
  "q_pending (clear_linters s v) = q_pending s"
  "lint_view_calls (clear_linters s v) = lint_view_calls s"
  by (simp_all add: clear_linters_def split: option.splits)

lemma hit_last_hit_times:
  "last_hit_times (hit env s view) =
     (if view_size view = 0 then last_hit_times s
      else (last_hit_times s)(vid view \<mapsto> q_clock s + 1))"
  by (simp add: hit_def Let_def queue_hit_def)

lemma hit_q_clock:
  "q_clock (hit env s view) = (if view_size view = 0 then q_clock s else q_clock s + 1)"
  by (simp add: hit_def Let_def queue_hit_def)

lemma hit_q_pending:
  "q_pending (hit env s view) =
     (if view_size view = 0 then q_pending s else (q_pending s)(vid view \<mapsto> q_clock s + 1))"
  by (simp add: hit_def Let_def queue_hit_def)

lemma hit_lint_view_calls [simp]: "lint_view_calls (hit env s view) = lint_view_calls s"
  by (simp add: hit_def Let_def queue_hit_def)

lemma hit_minted: "times_minted s \<Longrightarrow> times_minted (hit env s view)"
proof (cases "view_size view = 0")
  case True
  then show "times_minted s \<Longrightarrow> times_minted (hit env s view)"
    by (simp add: times_minted_def hit_last_hit_times hit_q_clock)
next
  case False
  assume m: "times_minted s"
  show "times_minted (hit env s view)"
    unfolding times_minted_def
  proof (intro allI impI)
    fix v t
    assume a: "last_hit_times (hit env s view) v = Some t"
    show "t \<le> q_clock (hit env s view)"
    proof (cases "v = vid view")
      case True
      with a False show ?thesis by (simp add: hit_last_hit_times hit_q_clock)
    next
      case diff: False
      with a False have "last_hit_times s v = Some t" by (simp add: hit_last_hit_times)
      with m have "t \<le> q_clock s" by (simp add: times_minted_def)
      with False show ?thesis by (simp add: hit_q_clock)
    qed
  qed
qed

lemma hit_le:
  assumes "times_minted s"
  shows "hit_time_le (last_hit_times s v) (last_hit_times (hit env s view) v)"
proof (cases "view_size view \<noteq> 0 \<and> v = vid view")
  case True
  show ?thesis
  proof (cases "last_hit_times s v")
    case None
    then show ?thesis by simp
  next
    case (Some t)
    with assms have "t \<le> q_clock s" by (simp add: times_minted_def)
    with Some True show ?thesis by (simp add: hit_last_hit_times)
  qed
next
  case False
  then have "last_hit_times (hit env s view) v = last_hit_times s v"
    by (auto simp: hit_last_hit_times)
  then show ?thesis by simp
qed

lemma hit_keeps: "keeps v s (hit env s view)"
  by (simp add: keeps_def hit_q_clock hit_minted hit_le)

lemma lint_all_views_fold_keeps:
  "keeps v s (fold (\<lambda>view st. if vid view \<in> dom (p_linters st) then hit env st view else st) vs s)"
proof (induction vs arbitrary: s)
  case Nil
  show ?case by simp
next
  case (Cons w ws)
  let ?s1 = "if vid w \<in> dom (p_linters s) then hit env s w else s"
  have a: "keeps v s ?s1"
    by (simp add: hit_keeps)
  have b: "keeps v ?s1 (fold (\<lambda>view st. if vid view \<in> dom (p_linters st) then hit env st view else st) ws ?s1)"
    by (rule Cons.IH)
  from keeps_trans [OF a b] show ?case by simp
qed

lemma lint_all_views_keeps: "keeps v s (lint_all_views env s)"
  by (simp add: lint_all_views_def lint_all_views_fold_keeps)

lemma lint_all_views_fold_calls:
  "lint_view_calls (fold (\<lambda>view st. if vid view \<in> dom (p_linters st) then hit env st view else st) vs s)
    = lint_view_calls s"
proof (induction vs arbitrary: s)
  case Nil
  show ?case by simp
next
  case (Cons w ws)
  show ?case by (simp add: Cons.IH)
qed

lemma lint_all_views_calls [simp]: "lint_view_calls (lint_all_views env s) = lint_view_calls s"
  by (simp add: lint_all_views_def lint_all_views_fold_calls)

lemma Linter_assign_frame [simp]:
  "last_hit_times (Linter_assign env s view r) = last_hit_times s"
  "q_clock (Linter_assign env s view r) = q_clock s"
  "lint_view_calls (Linter_assign env s view r) = lint_view_calls s"
  by (simp_all add: Linter_assign_def Let_def)

lemma on_new_frame [simp]:
  "last_hit_times (on_new env s view) = last_hit_times s"
  "q_clock (on_new env s view) = q_clock s"
  "lint_view_calls (on_new env s view) = lint_view_calls s"
  by (simp_all add: on_new_def on_open_settings_def Let_def)

lemma lint_frame [simp]:
  "last_hit_times (lint env s v ht) = last_hit_times s"
  "q_clock (lint env s v ht) = q_clock s"
  by (simp_all add: lint_def Linter_lint_view_def split: option.splits)

lemma lint_calls:
  "lint_view_calls (lint env s v ht) = lint_view_calls s \<or>
   (\<exists>fname. lint_view_calls (lint env s v ht) = lint_view_calls s @ [(v, fname, ht)])"
  by (simp add: lint_def Linter_lint_view_def split: option.splits)

lemma queue_fire_frame [simp]:
  "last_hit_times (queue_fire env s v) = last_hit_times s"
  "q_clock (queue_fire env s v) = q_clock s"
  by (simp_all add: queue_fire_def split: option.splits)

lemma on_modified_keeps: "keeps v s (on_modified env s view)"
proof -
  have a: "keeps v s (snd (check_syntax env s view))" by (simp add: keeps_same)
  have b: "keeps v s (hit env (snd (check_syntax env s view)) view)"
    using keeps_trans [OF a hit_keeps] .
  have c: "keeps v s (clear s view)" by (simp add: keeps_same)
  show ?thesis
    by (simp add: on_modified_def Let_def split_beta a b c hit_keeps)
qed

lemma osm_keeps:
  assumes "on_selection_modified_async s view = Inr s'"
  shows "keeps v s s'"
proof -
  obtain st where "on_selection_modified_async s view = Inr (s\<lparr>status := st\<rparr>)"
    using osm_changes_status_only by blast
  with assms have "s' = s\<lparr>status := st\<rparr>" by simp
  then show ?thesis by (simp add: keeps_same)
qed

lemma on_activated_keeps:
  assumes "on_activated env s view = Inr s'"
  shows "keeps v s s'"
proof -
  let ?s0 = "persist_load_settings env s"
  let ?s1 = "snd (check_syntax env ?s0 view)"
  let ?s2 = "if vid view \<notin> loaded_views ?s1 then on_new env ?s1 view else ?s1"
  let ?s3 = "if lint_mode (p_settings ?s2) \<in> {''background'', ''load/save''}
             then hit env ?s2 view else ?s2"
  let ?s4 = "if vid view \<notin> linted_views ?s1 then ?s3 else ?s1"
  have k1: "keeps v s ?s1" by (simp add: keeps_same persist_load_settings_def)
  have k2: "keeps v ?s1 ?s2" by (simp add: keeps_same)
  have k3: "keeps v ?s2 ?s3" using hit_keeps keeps_refl by presburger
  have k4: "keeps v s ?s4"
    using k1 keeps_trans [OF k1 keeps_trans [OF k2 k3]] by presburger
  have "on_activated env s view = on_selection_modified_async ?s4 view"
    by (simp add: on_activated_def Let_def)
  with assms have "keeps v ?s4 s'" using osm_keeps by simp
  with k4 show ?thesis using keeps_trans by blast
qed

lemma highlight_keeps:
  assumes "highlight s view linters ht = Inr s'"
  shows "keeps v s s'"
proof -
  let ?c = "s\<lparr>p_highlights := (p_highlights s)(vid view \<mapsto> fst (merge_results linters)),
          marks := (marks s)(vid view := concat (fst (merge_results linters))),
          p_errors := (p_errors s)(vid view \<mapsto> snd (merge_results linters))\<rparr>"
  have kc: "keeps v s ?c" by (simp add: keeps_same)
  show ?thesis
  proof (cases ht)
    case None
    with assms have "on_selection_modified_async ?c view = Inr s'"
      by (simp add: highlight_untimed)
    then show ?thesis using osm_keeps kc keeps_trans by blast
  next
    case (Some t)
    show ?thesis
    proof (cases "t < dict_get_default (last_hit_times s) (vid view) 0")
      case True
      with Some assms show ?thesis by (auto simp: highlight_stale keeps_same)
    next
      case False
      then have "dict_get_default (last_hit_times s) (vid view) 0 \<le> t" by simp
      with Some assms have "on_selection_modified_async ?c view = Inr s'"
        by (simp add: highlight_fresh)
      then show ?thesis using osm_keeps kc keeps_trans by blast
    qed
  qed
qed

lemma run_command_frame [simp]:
  "last_hit_times (run_command s v n) = last_hit_times s"
  "q_clock (run_command s v n) = q_clock s"
  "lint_view_calls (run_command s v n) = lint_view_calls s"
  by (simp_all add: run_command_def)

lemma persist_load_settings_frame [simp]:
  "last_hit_times (persist_load_settings env s) = last_hit_times s"
  "q_clock (persist_load_settings env s) = q_clock s"
  "lint_view_calls (persist_load_settings env s) = lint_view_calls s"
  by (simp_all add: persist_load_settings_def)

lemma on_post_save_keeps:
  assumes "on_post_save env s view = Inr s'"
  shows "keeps v s s'"
proof (cases "project_file_name view = file_name view")
  case True
  with assms have "s' = lint_all_views env s" by (simp add: on_post_save_def)
  then show ?thesis by (simp add: lint_all_views_keeps)
next
  case False
  then obtain fname where fn: "file_name view = Some fname"
    using assms by (cases "file_name view") (auto simp: on_post_save_def)
  show ?thesis
  proof (cases "basename fname = ''.sublimelinterrc''")
    case True
    with False fn assms have "s' = persist_load_settings env s \<or> s' = lint_all_views env s"
      by (auto simp: on_post_save_def split: if_splits)
    then show ?thesis using lint_all_views_keeps keeps_same [of "persist_load_settings env s" s v]
      by auto
  next
    case rc: False
    have "last_hit_times s' = last_hit_times s \<and> q_clock s' = q_clock s"
      using assms False fn rc
      by (auto simp: on_post_save_def Let_def split_beta split: if_splits)
    then show ?thesis by (simp add: keeps_same)
  qed
qed

lemma lint_untimed:
  assumes "lint_view_calls s1 = lint_view_calls s"
  shows "\<exists>new. lint_view_calls (lint env s1 v None) = lint_view_calls s @ new
           \<and> list_all (\<lambda>c. snd (snd c) = None) new"
proof -
  from lint_calls [of env s1 v None] show ?thesis
  proof
    assume "lint_view_calls (lint env s1 v None) = lint_view_calls s1"
    with assms have "lint_view_calls (lint env s1 v None) = lint_view_calls s @ []
        \<and> list_all (\<lambda>c. snd (snd c) = None) ([] :: (view_id \<times> string option \<times> hit_time option) list)"
      by simp
    then show ?thesis by blast
  next
    assume "\<exists>fname. lint_view_calls (lint env s1 v None) = lint_view_calls s1 @ [(v, fname, None)]"
    then obtain fname where
      "lint_view_calls (lint env s1 v None) = lint_view_calls s1 @ [(v, fname, None)]" by blast
    with assms have "lint_view_calls (lint env s1 v None) = lint_view_calls s @ [(v, fname, None)]
        \<and> list_all (\<lambda>c. snd (snd c) = None) [(v, fname, None :: hit_time option)]"
      by simp
    then show ?thesis by blast
  qed
qed

lemma same_untimed:
  assumes "lint_view_calls s1 = lint_view_calls s"
  shows "\<exists>new. lint_view_calls s1 = lint_view_calls s @ new
           \<and> list_all (\<lambda>c. snd (snd c) = None) new"
proof -
  have "lint_view_calls s1 = lint_view_calls s @ []
        \<and> list_all (\<lambda>c. snd (snd c) = None) ([] :: (view_id \<times> string option \<times> hit_time option) list)"
    using assms by simp
  then show ?thesis by blast
qed

lemma on_post_save_untimed:
  assumes "on_post_save env s view = Inr s'"
  shows "\<exists>new. lint_view_calls s' = lint_view_calls s @ new
           \<and> list_all (\<lambda>c. snd (snd c) = None) new"
proof (cases "project_file_name view = file_name view")
  case True
  with assms have "s' = lint_all_views env s" by (simp add: on_post_save_def)
  then show ?thesis by (simp add: same_untimed)
next
  case False
  then obtain fname where fn: "file_name view = Some fname"
    using assms by (cases "file_name view") (auto simp: on_post_save_def)
  show ?thesis
  proof (cases "basename fname = ''.sublimelinterrc''")
    case True
    with False fn assms have "lint_view_calls s' = lint_view_calls s"
      by (auto simp: on_post_save_def split: if_splits)
    then show ?thesis by (rule same_untimed)
  next
    case rc: False
    let ?s1 = "snd (check_syntax env s view)"
    let ?s2 = "clear ?s1 view"
    have c1: "lint_view_calls ?s1 = lint_view_calls s" by simp
    have c2: "lint_view_calls ?s2 = lint_view_calls s" by simp
    have "lint_view_calls s' = lint_view_calls s
        \<or> lint_view_calls s' = lint_view_calls (lint env ?s1 (vid view) None)
        \<or> lint_view_calls s' = lint_view_calls (lint env ?s2 (vid view) None)"
      using assms False fn rc
      by (auto simp: on_post_save_def Let_def split_beta split: if_splits)
    then show ?thesis
      using same_untimed [of s' s] lint_untimed [OF c1, of env "vid view"]
        lint_untimed [OF c2, of env "vid view"]
      by metis
  qed
qed

lemma on_close_keeps_other:
  assumes "on_close s view = Inr s'" "vid view \<noteq> v"
  shows "keeps v s s'"
proof -
  from assms(1) have s': "s' = persist_view_did_close
            (s\<lparr>loaded_views := loaded_views s - {vid view},
               linted_views := linted_views s - {vid view},
               view_syntax := (view_syntax s)(vid view := None),
               last_hit_times := (last_hit_times s)(vid view := None)\<rparr>) (vid view)"
    by (simp add: on_close_result)
  have "times_minted s \<Longrightarrow> times_minted s'"
    unfolding s' by (simp add: times_minted_def persist_view_did_close_def)
  moreover have "last_hit_times s' v = last_hit_times s v"
    unfolding s' using assms(2) by (simp add: persist_view_did_close_def)
  moreover have "q_clock s' = q_clock s"
    unfolding s' by (simp add: persist_view_did_close_def)
  ultimately show ?thesis by (simp add: keeps_def)
qed

lemma on_close_clock_minted:
  assumes "on_close s view = Inr s'"
  shows "q_clock s' = q_clock s \<and> (times_minted s \<longrightarrow> times_minted s')"
proof -
  from assms(1) have s': "s' = persist_view_did_close
            (s\<lparr>loaded_views := loaded_views s - {vid view},
               linted_views := linted_views s - {vid view},
               view_syntax := (view_syntax s)(vid view := None),
               last_hit_times := (last_hit_times s)(vid view := None)\<rparr>) (vid view)"
    by (simp add: on_close_result)
  show ?thesis unfolding s' by (simp add: times_minted_def persist_view_did_close_def)
qed

lemma step_keeps:
  assumes "step env s e = Inr s'" "\<not> closes v e"
  shows "keeps v s s'"
proof (cases e)
  case (OnModified view)
  with assms show ?thesis using on_modified_keeps by auto
next
  case (OnLoad view)
  with assms show ?thesis by (auto simp: on_load_def intro!: keeps_same)
next
  case (OnNew view)
  with assms show ?thesis by (auto intro!: keeps_same)
next
  case (OnActivated view)
  with assms show ?thesis using on_activated_keeps by auto
next
  case (OnSelectionModified view)
  with assms show ?thesis using osm_keeps by auto
next
  case (OnPreSave view)
  with assms show ?thesis by (auto simp: on_pre_save_def)
next
  case (OnPostSave view)
  with assms show ?thesis using on_post_save_keeps by auto
next
  case (OnClose view)
  with assms show ?thesis using on_close_keeps_other by auto
next
  case (Hit view)
  with assms show ?thesis using hit_keeps by auto
next
  case LintAllViews
  with assms show ?thesis using lint_all_views_keeps by auto
next
  case (QueueFire w)
  with assms show ?thesis by (auto intro!: keeps_same)
next
  case (Completion view linters ht)
  with assms show ?thesis using highlight_keeps by auto
qed

lemma not_closes: "(\<And>view. e \<noteq> OnClose view) \<Longrightarrow> \<not> closes v e"
  by (cases e) auto

lemma step_clock_minted:
  assumes "step env s e = Inr s'"
  shows "q_clock s \<le> q_clock s' \<and> (times_minted s \<longrightarrow> times_minted s')"
proof (cases "\<exists>view. e = OnClose view")
  case True
  then obtain view where "e = OnClose view" by blast
  with assms show ?thesis using on_close_clock_minted by auto
next
  case False
  then have "\<not> closes 0 e" using not_closes by blast
  from step_keeps [OF assms this] show ?thesis by (simp add: keeps_def)
qed

lemma run_clock_minted:
  "run s es = Inr s' \<Longrightarrow> q_clock s \<le> q_clock s' \<and> (times_minted s \<longrightarrow> times_minted s')"
proof (induction es arbitrary: s)
  case Nil
  then show ?case by simp
next
  case (Cons p es)
  obtain env e where p: "p = (env, e)" by (cases p)
  with Cons.prems obtain s1 where s1: "step env s e = Inr s1" "run s1 es = Inr s'"
    by (auto split: sum.splits)
  from step_clock_minted [OF s1(1)] Cons.IH [OF s1(2)] show ?case by auto
qed

lemma init_minted: "times_minted (init_state cfg)"
  by (simp add: times_minted_def init_state_def)

lemma reachable_minted: "run (init_state cfg) es = Inr s \<Longrightarrow> times_minted s"
  using run_clock_minted init_minted by blast

lemma run_keeps:
  "times_minted s \<Longrightarrow> run s es = Inr s' \<Longrightarrow> list_all (\<lambda>p. \<not> closes v (snd p)) es \<Longrightarrow>
   keeps v s s'"
proof (induction es arbitrary: s)
  case Nil
  then show ?case by simp
next
  case (Cons p es)
  obtain env e where p: "p = (env, e)" by (cases p)
  with Cons.prems obtain s1 where s1: "step env s e = Inr s1" "run s1 es = Inr s'"
    by (auto split: sum.splits)
  from Cons.prems p have nc: "\<not> closes v e" "list_all (\<lambda>p. \<not> closes v (snd p)) es" by auto
  have k1: "keeps v s s1" using step_keeps [OF s1(1) nc(1)] .
  with Cons.prems(1) have "times_minted s1" by (simp add: keeps_def)
  from Cons.IH [OF this s1(2) nc(2)] have k2: "keeps v s1 s'" .
  from keeps_trans [OF k1 k2] show ?case .
qed

lemma ex_post_save:
  "on_post_save example_env (init_state example_settings) (example_view 1 10 [])
     = Inr (lint example_env
              (clear (snd (check_syntax example_env (init_state example_settings)
                             (example_view 1 10 [])))
                 (example_view 1 10 []))
              1 None)"
  by (simp add: on_post_save_def Let_def split_beta example_view_def example_env_def
      example_settings_def init_state_def basename_def check_syntax_def clear_def
      Linter_clear_view_def Linter_assign_def persist_syntax_def)

subsection \<open>Facts for the examples and for hit on an empty view\<close>

lemma merge_A [simp]: "merge_results [linter_A] = ([[(0, 0, 3)]], [(0, [(0, ''first'')])])"
  by (simp add: merge_results_def highlight_step_def linter_A_def HighlightSet_new_def
      HighlightSet_add_def merge_errors_def)

lemma merge_B [simp]: "merge_results [linter_B] = ([[(4, 50, 53)]], [(4, [(2, ''second'')])])"
  by (simp add: merge_results_def highlight_step_def linter_B_def HighlightSet_new_def
      HighlightSet_add_def merge_errors_def)

lemma get_linters_clear_linters:
  "Linter_get_linters (clear_linters s v) v = map linter_clear (Linter_get_linters s v)"
  by (simp add: Linter_get_linters_def clear_linters_def split: option.splits)

lemma hit_empty:
  assumes "view_size view = 0"
  shows "hit env s view =
     clear_linters
       ((snd (check_syntax env s view))
          \<lparr>linted_views := insert (vid view) (linted_views (snd (check_syntax env s view)))\<rparr>)
       (vid view)"
  using assms by (simp add: hit_def Let_def)

lemma on_close_closed_state: "on_close s view = Inr (closed_state s view)"
  by (simp add: on_close_result closed_state_def)

lemma closed_state_purged:
  "vid view \<notin> loaded_views (closed_state s view) \<and> vid view \<notin> linted_views (closed_state s view)
   \<and> view_syntax (closed_state s view) (vid view) = None
   \<and> last_hit_times (closed_state s view) (vid view) = None
   \<and> p_errors (closed_state s view) (vid view) = None
   \<and> p_highlights (closed_state s view) (vid view) = None"
  by (simp add: closed_state_def persist_view_did_close_def)

text \<open>With no entry in \<open>last_hit_times\<close> the comparison reads the default \<open>0\<close>, which is
  not greater than a hit time \<open>t \<ge> 0\<close>: the completion is committed.\<close>
lemma completion_after_close:
  assumes "0 \<le> t"
  shows "\<exists>st. highlight (closed_state s view) view linters (Some t) =
            Inr ((closed_state s view)
                   \<lparr>p_highlights := (p_highlights (closed_state s view))
                                      (vid view \<mapsto> fst (merge_results linters)),
                    marks := (marks (closed_state s view))
                               (vid view := concat (fst (merge_results linters))),
                    p_errors := (p_errors (closed_state s view))
                                  (vid view \<mapsto> snd (merge_results linters)),
                    status := st\<rparr>)"
proof -
  have "dict_get_default (last_hit_times (closed_state s view)) (vid view) 0 \<le> t"
    using assms closed_state_purged [of view s] by (simp add: dict_get_default_def)
  from highlight_fresh [OF this] osm_changes_status_only show ?thesis by simp
qed

section \<open>The merged errors and the order of the linters\<close>

lemma errors_at_setdefault_extend:
  "errors_at (setdefault_extend d line errs) k =
     (if k = line then errors_at d line @ errs else errors_at d k)"
  by (induction d line errs rule: setdefault_extend.induct) (auto simp: errors_at_def)

lemma keys_setdefault_extend:
  "fst ` set (setdefault_extend d line errs) = insert line (fst ` set d)"
  by (induction d line errs rule: setdefault_extend.induct) auto

lemma distinct_setdefault_extend:
  "distinct (map fst d) \<Longrightarrow> distinct (map fst (setdefault_extend d line errs))"
proof (induction d line errs rule: setdefault_extend.induct)
  case (1 line errs)
  then show ?case by simp
next
  case (2 k es d line errs)
  show ?case
  proof (cases "k = line")
    case True
    with 2 show ?thesis by simp
  next
    case False
    with 2 have "distinct (map fst (setdefault_extend d line errs))" by simp
    moreover have "k \<notin> fst ` set (setdefault_extend d line errs)"
      using 2(2) False by (simp add: keys_setdefault_extend)
    ultimately show ?thesis using False by simp
  qed
qed

lemma errors_at_merge_errors:
  "errors_at (merge_errors items d) k =
     errors_at d k @ concat (map snd (filter (\<lambda>p. fst p = k) items))"
  unfolding merge_errors_def
proof (induction items arbitrary: d)
  case Nil
  show ?case by simp
next
  case (Cons p items)
  obtain line errs where p: "p = (line, errs)" by (cases p)
  show ?case by (simp add: p Cons.IH errors_at_setdefault_extend)
qed

lemma keys_merge_errors:
  "fst ` set (merge_errors items d) = fst ` set d \<union> fst ` set items"
  unfolding merge_errors_def
proof (induction items arbitrary: d)
  case Nil
  show ?case by simp
next
  case (Cons p items)
  obtain line errs where p: "p = (line, errs)" by (cases p)
  have "fst ` set (fold (\<lambda>(line, errs) d. setdefault_extend d line errs) items
            (setdefault_extend d line errs))
        = fst ` set (setdefault_extend d line errs) \<union> fst ` set items"
    by (rule Cons.IH)
  then show ?case by (simp add: p keys_setdefault_extend)
qed

lemma distinct_merge_errors:
  "distinct (map fst d) \<Longrightarrow> distinct (map fst (merge_errors items d))"
  unfolding merge_errors_def
proof (induction items arbitrary: d)
  case Nil
  then show ?case by simp
next
  case (Cons p items)
  obtain line errs where p: "p = (line, errs)" by (cases p)
  from Cons.prems have "distinct (map fst (setdefault_extend d line errs))"
    by (rule distinct_setdefault_extend)
  from Cons.IH [OF this] show ?case by (simp add: p)
qed

lemma snd_highlight_step: "snd (highlight_step l acc) = merge_errors (l_errors l) (snd acc)"
  by (cases acc) (simp add: highlight_step_def merge_errors_def)

lemma errors_at_fold_step:
  "errors_at (snd (fold highlight_step ls acc)) k =
     errors_at (snd acc) k @ concat (map (\<lambda>l. line_contrib l k) ls)"
proof (induction ls arbitrary: acc)
  case Nil
  show ?case by simp
next
  case (Cons l ls)
  show ?case
    by (simp add: Cons.IH snd_highlight_step errors_at_merge_errors line_contrib_def)
qed

lemma keys_fold_step:
  "fst ` set (snd (fold highlight_step ls acc)) =
     fst ` set (snd acc) \<union> (\<Union>l\<in>set ls. fst ` set (l_errors l))"
proof (induction ls arbitrary: acc)
  case Nil
  show ?case by simp
next
  case (Cons l ls)
  have "fst ` set (snd (fold highlight_step ls (highlight_step l acc))) =
     fst ` set (snd (highlight_step l acc)) \<union> (\<Union>l\<in>set ls. fst ` set (l_errors l))"
    by (rule Cons.IH)
  then show ?case by (simp add: snd_highlight_step keys_merge_errors Un_assoc)
qed

lemma distinct_fold_step:
  "distinct (map fst (snd acc)) \<Longrightarrow> distinct (map fst (snd (fold highlight_step ls acc)))"
proof (induction ls arbitrary: acc)
  case Nil
  then show ?case by simp
next
  case (Cons l ls)
  from Cons.prems have "distinct (map fst (snd (highlight_step l acc)))"
    by (simp add: snd_highlight_step distinct_merge_errors)
  from Cons.IH [OF this] show ?case by simp
qed

lemma errors_at_Nil [simp]: "errors_at [] k = []"
  by (simp add: errors_at_def)

lemma errors_at_merged:
  "errors_at (snd (merge_results ls)) k = concat (map (\<lambda>l. line_contrib l k) ls)"
  by (simp add: merge_results_def errors_at_fold_step)

lemma keys_merged:
  "fst ` set (snd (merge_results ls)) = (\<Union>l\<in>set ls. fst ` set (l_errors l))"
  by (simp add: merge_results_def keys_fold_step)

lemma distinct_merged: "distinct (map fst (snd (merge_results ls)))"
  by (simp add: merge_results_def distinct_fold_step)

lemma mset_errors_at_merged:
  assumes "mset ls' = mset ls"
  shows "mset (errors_at (snd (merge_results ls')) k) = mset (errors_at (snd (merge_results ls)) k)"
proof -
  have "mset (concat (map (\<lambda>l. line_contrib l k) xs))
      = sum_mset (image_mset (\<lambda>l. mset (line_contrib l k)) (mset xs))" for xs
    by (induction xs) simp_all
  then show ?thesis using assms by (simp add: errors_at_merged)
qed

lemma keys_merged_perm:
  assumes "mset ls' = mset ls"
  shows "fst ` set (snd (merge_results ls')) = fst ` set (snd (merge_results ls))"
proof -
  from assms have "set ls' = set ls" by (rule mset_eq_setD)
  then show ?thesis by (simp only: keys_merged)
qed

lemma sort_key_perm:
  assumes "mset xs = mset ys" "inj_on f (set xs)"
  shows "sort_key f xs = sort_key f ys"
proof (rule sort_key_inj_key_eq)
  show "mset xs = mset (sort_key f ys)" using assms(1) by simp
  show "inj_on f (set xs)" by (rule assms(2))
  show "sorted (map f (sort_key f ys))" by simp
qed

lemma status_text_perm:
  assumes dM: "distinct (map fst M)" and dM': "distinct (map fst M')"
    and keys: "fst ` set M' = fst ` set M"
    and perm: "\<And>k. mset (errors_at M' k) = mset (errors_at M k)"
    and cols: "distinct (map fst (errors_at M lineno))"
  shows "status_text M' lineno = status_text M lineno"
proof -
  have "mset (map fst M') = mset (map fst M)"
    using set_eq_iff_mset_eq_distinct [OF dM' dM] keys by simp
  then have lines: "sort (map fst M') = sort (map fst M)"
    by (rule sort_key_perm) simp
  have len: "length (errors_at M' k) = length (errors_at M k)" for k
    using perm [of k] by (rule mset_eq_length)
  have "inj_on fst (set (errors_at M lineno))" using cols by (simp add: distinct_map)
  with perm [of lineno] have "sort_key fst (errors_at M lineno) = sort_key fst (errors_at M' lineno)"
    using sort_key_perm [of "errors_at M lineno" "errors_at M' lineno" fst] by simp
  then have le: "sort_key fst (errors_at M' lineno) = sort_key fst (errors_at M lineno)" by simp
  show ?thesis
    unfolding status_text_def by (simp only: lines len le keys set_map)
qed

lemma osm_status_perm:
  assumes "status_text M' (cursor_line view) = status_text M (cursor_line view)"
    and "M' = [] \<longleftrightarrow> M = []"
    and "p_errors c (vid view) = Some M" and "p_errors c' (vid view) = Some M'"
    and "status c' = status c"
    and "on_selection_modified_async c view = Inr s1"
    and "on_selection_modified_async c' view = Inr s2"
  shows "status s2 = status s1"
proof -
  have l: "(case first_sel_line view of Inr l \<Rightarrow> Inr l
            | Inl e \<Rightarrow> if e = IndexError then Inr (- 1) else Inl e)
          = (Inr (cursor_line view) :: py_error + int)"
    by (cases "sel view") (auto simp: first_sel_line_def cursor_line_def)
  obtain msg where m: "status_text M (cursor_line view) = Inr msg"
    using status_text_total by blast
  show ?thesis
  proof (cases "M = []")
    case True
    with assms(2) have "M' = []" by simp
    with True assms(3-7) show ?thesis
      by (auto simp: on_selection_modified_async_def Let_def l erase_status_def)
  next
    case False
    with assms(2) have "M' \<noteq> []" by simp
    with False assms(1,3-7) m show ?thesis
      by (auto simp: on_selection_modified_async_def Let_def l set_status_def)
  qed
qed

lemma merged_empty_iff:
  assumes "mset ls' = mset ls"
  shows "snd (merge_results ls') = [] \<longleftrightarrow> snd (merge_results ls) = []"
proof -
  have "fst ` set (snd (merge_results ls')) = fst ` set (snd (merge_results ls))"
    using assms by (rule keys_merged_perm)
  then show ?thesis by (metis image_is_empty set_empty)
qed

lemma highlight_status_perm:
  assumes perm: "mset ls' = mset ls"
    and cols: "distinct (map fst (errors_at (snd (merge_results ls)) (cursor_line view)))"
    and h1: "highlight s view ls ht = Inr s1"
    and h2: "highlight s view ls' ht = Inr s2"
  shows "status s2 = status s1"
proof -
  let ?M = "snd (merge_results ls)" and ?M' = "snd (merge_results ls')"
  let ?c = "\<lambda>xs. s\<lparr>p_highlights := (p_highlights s)(vid view \<mapsto> fst (merge_results xs)),
          marks := (marks s)(vid view := concat (fst (merge_results xs))),
          p_errors := (p_errors s)(vid view \<mapsto> snd (merge_results xs))\<rparr>"
  have st: "status_text ?M' (cursor_line view) = status_text ?M (cursor_line view)"
    using distinct_merged distinct_merged keys_merged_perm [OF perm]
      mset_errors_at_merged [OF perm] cols
    by (rule status_text_perm)
  have e: "?M' = [] \<longleftrightarrow> ?M = []" using perm by (rule merged_empty_iff)
  have commit: "on_selection_modified_async (?c ls) view = Inr s1 \<Longrightarrow>
      on_selection_modified_async (?c ls') view = Inr s2 \<Longrightarrow> status s2 = status s1"
    using osm_status_perm [OF st e, of "?c ls" "?c ls'" s1 s2] by simp
  show ?thesis
  proof (cases ht)
    case None
    with h1 h2 commit show ?thesis by (simp add: highlight_untimed)
  next
    case (Some t)
    show ?thesis
    proof (cases "t < dict_get_default (last_hit_times s) (vid view) 0")
      case True
      with Some h1 h2 show ?thesis by (auto simp: highlight_stale)
    next
      case False
      then have "dict_get_default (last_hit_times s) (vid view) 0 \<le> t" by simp
      with Some h1 h2 commit show ?thesis by (simp add: highlight_fresh)
    qed
  qed
qed

lemma highlight_total: "\<exists>s'. highlight s view ls ht = Inr s'"
proof -
  let ?c = "s\<lparr>p_highlights := (p_highlights s)(vid view \<mapsto> fst (merge_results ls)),
          marks := (marks s)(vid view := concat (fst (merge_results ls))),
          p_errors := (p_errors s)(vid view \<mapsto> snd (merge_results ls))\<rparr>"
  obtain st where c: "on_selection_modified_async ?c view = Inr (?c\<lparr>status := st\<rparr>)"
    using osm_changes_status_only by blast
  show ?thesis
  proof (cases ht)
    case None
    with c show ?thesis by (simp add: highlight_untimed)
  next
    case (Some t)
    show ?thesis
    proof (cases "t < dict_get_default (last_hit_times s) (vid view) 0")
      case True
      with Some show ?thesis by (simp add: highlight_stale)
    next
      case False
      then have "dict_get_default (last_hit_times s) (vid view) 0 \<le> t" by simp
      with Some c show ?thesis by (simp add: highlight_fresh)
    qed
  qed
qed

lemma merge_PQ [simp]:
  "merge_results [linter_P a, linter_Q b] = ([], [(5, [(a, ''unused import''), (b, ''line too long'')])])"
  "merge_results [linter_Q b, linter_P a] = ([], [(5, [(b, ''line too long''), (a, ''unused import'')])])"
  by (simp_all add: merge_results_def highlight_step_def linter_P_def linter_Q_def
      HighlightSet_new_def merge_errors_def)

section \<open>The claims\<close>

subsection \<open>C1: a stale completion\<close>

text \<open>
  C1 (the code departs from it). A view is hit, the analysis of that hit completes and is
  committed, and the view is hit again, so that its \<open>last_hit_times\<close> entry is 2. A second
  completion that still carries the hit time 1 is stale. \<open>highlight\<close> leaves the stored
  errors, the marks drawn in the view and the status as they are, but the highlight set
  stored in \<open>persist.highlights\<close> is no longer the set of the committed analysis: it has
  been replaced by the set of the stale one, which is stored before the hit times are
  compared.
\<close>
theorem C1_stale_completion_replaces_stored_highlights:
  "\<exists>s1 s2.
     run (init_state example_settings)
       [(example_env, Hit (example_view 1 10 [])),
        (example_env, Completion (example_view 1 10 []) [linter_A] (Some 1)),
        (example_env, Hit (example_view 1 11 []))] = Inr s1
   \<and> last_hit_times s1 1 = Some 2
   \<and> p_highlights s1 1 = Some [[(0, 0, 3)]] \<and> marks s1 1 = [(0, 0, 3)]
   \<and> highlight s1 (example_view 1 11 []) [linter_B] (Some 1) = Inr s2
   \<and> p_highlights s2 1 = Some [[(4, 50, 53)]]
   \<and> p_errors s2 = p_errors s1 \<and> marks s2 = marks s1 \<and> status s2 = status s1"
proof -
  let ?v = "example_view 1 10 []"
  let ?w = "example_view 1 11 []"
  let ?s0 = "init_state example_settings"
  let ?sa = "hit example_env ?s0 ?v"
  have va: "vid ?v = 1" "vid ?w = 1" "view_size ?v \<noteq> 0" "view_size ?w \<noteq> 0"
    by (simp_all add: example_view_def)
  have ta: "last_hit_times ?sa = [1 \<mapsto> 1]" "q_clock ?sa = 1"
    using va by (simp_all add: hit_last_hit_times hit_q_clock init_state_def)
  then have "dict_get_default (last_hit_times ?sa) (vid ?v) 0 \<le> 1"
    using va by (simp add: dict_get_default_def)
  then have fa: "highlight ?sa ?v [linter_A] (Some 1) =
      on_selection_modified_async
        (?sa\<lparr>p_highlights := (p_highlights ?sa)(1 \<mapsto> [[(0, 0, 3)]]),
              marks := (marks ?sa)(1 := [(0, 0, 3)]),
              p_errors := (p_errors ?sa)(1 \<mapsto> [(0, [(0, ''first'')])])\<rparr>) ?v"
    (is "_ = on_selection_modified_async ?ca _")
    using highlight_fresh [of ?sa ?v 1 "[linter_A]"] va by simp
  obtain st where "on_selection_modified_async ?ca ?v = Inr (?ca\<lparr>status := st\<rparr>)"
    using osm_changes_status_only by blast
  with fa have sb: "highlight ?sa ?v [linter_A] (Some 1) = Inr (?ca\<lparr>status := st\<rparr>)"
    (is "_ = Inr ?sb") by simp
  let ?sc = "hit example_env ?sb ?w"
  have r: "run ?s0 [(example_env, Hit ?v), (example_env, Completion ?v [linter_A] (Some 1)),
        (example_env, Hit ?w)] = Inr ?sc"
    using sb by simp
  have tc: "last_hit_times ?sc 1 = Some 2"
    using va ta by (simp add: hit_last_hit_times)
  have vs: "view_syntax ?sb 1 = Some (persist_syntax ?w)"
    using va by (simp add: hit_def Let_def check_syntax_def queue_hit_def init_state_def
        clear_def Linter_clear_view_def Linter_assign_def persist_syntax_def example_view_def)
  have same: "snd (check_syntax example_env ?sb ?w) = ?sb"
    using vs va by (simp add: check_syntax_def Let_def dom_def)
  have hc: "p_highlights ?sc 1 = Some [[(0, 0, 3)]]"
    using va by (simp add: hit_def [of example_env ?sb ?w] same Let_def queue_hit_def)
  have mc: "marks ?sc 1 = [(0, 0, 3)]"
    using va by (simp add: hit_def [of example_env ?sb ?w] same Let_def queue_hit_def)
  have "1 < dict_get_default (last_hit_times ?sc) (vid ?w) 0"
    using tc va by (simp add: dict_get_default_def)
  from highlight_stale [OF this, of "[linter_B]"]
  have sd: "highlight ?sc ?w [linter_B] (Some 1) =
      Inr (?sc\<lparr>p_highlights := (p_highlights ?sc)(1 \<mapsto> [[(4, 50, 53)]])\<rparr>)"
    using va by simp
  show ?thesis using r tc hc mc sd by simp
qed

subsection \<open>C2: hit on an empty view\<close>

text \<open>
  C2 (as amended). For a view of size zero \<open>hit\<close> enqueues no request and starts no
  analysis, records the view as linted and resets every linter bound to the view to an
  empty result; it mints no timestamp: the clock of the queue and \<open>last_hit_times\<close> stay
  as they were, and the method returns nothing.
\<close>
theorem C2_hit_on_empty_view:
  assumes "view_size view = 0"
  shows "q_pending (hit env s view) = q_pending s
       \<and> lint_view_calls (hit env s view) = lint_view_calls s
       \<and> q_clock (hit env s view) = q_clock s
       \<and> last_hit_times (hit env s view) = last_hit_times s
       \<and> vid view \<in> linted_views (hit env s view)
       \<and> Linter_get_linters (hit env s view) (vid view) =
           map linter_clear (Linter_get_linters (snd (check_syntax env s view)) (vid view))
       \<and> list_all (\<lambda>l. l_highlight l = None \<and> l_errors l = [])
           (Linter_get_linters (hit env s view) (vid view))"
proof -
  let ?s2 = "(snd (check_syntax env s view))
          \<lparr>linted_views := insert (vid view) (linted_views (snd (check_syntax env s view)))\<rparr>"
  have h: "hit env s view = clear_linters ?s2 (vid view)" using assms by (rule hit_empty)
  have g: "Linter_get_linters (hit env s view) (vid view) =
           map linter_clear (Linter_get_linters (snd (check_syntax env s view)) (vid view))"
    unfolding h get_linters_clear_linters by (simp add: Linter_get_linters_def)
  have l: "vid view \<in> linted_views (hit env s view)"
    unfolding h by (simp add: clear_linters_def split: option.splits)
  have c: "list_all (\<lambda>l. l_highlight l = None \<and> l_errors l = [])
           (Linter_get_linters (hit env s view) (vid view))"
    unfolding g by (simp add: list_all_iff linter_clear_def)
  show ?thesis
    using assms g l c by (simp add: hit_q_pending hit_q_clock hit_last_hit_times)
qed

theorem C2_hit_on_empty_view_witness:
  "view_size (example_view 1 0 []) = 0
   \<and> last_hit_times (hit example_env (init_state example_settings) (example_view 1 0 []))
       = last_hit_times (init_state example_settings)
   \<and> q_pending (hit example_env (init_state example_settings) (example_view 1 0 []))
       = q_pending (init_state example_settings)"
  using C2_hit_on_empty_view [of "example_view 1 0 []" example_env "init_state example_settings"]
  by (simp add: example_view_def)

text \<open>C2 as the spec states it fails: after a hit at time 1, a hit on the view, now
  empty, leaves the stored hit time at 1 and the clock at 1; and a first hit on an empty
  view stores no hit time at all.\<close>
theorem C2_counterexample:
  "view_size (example_view 1 0 []) = 0
   \<and> last_hit_times (hit example_env (init_state example_settings) (example_view 1 10 [])) 1
       = Some 1
   \<and> last_hit_times
       (hit example_env (hit example_env (init_state example_settings) (example_view 1 10 []))
          (example_view 1 0 [])) 1 = Some 1
   \<and> q_clock
       (hit example_env (hit example_env (init_state example_settings) (example_view 1 10 []))
          (example_view 1 0 [])) = 1
   \<and> last_hit_times (hit example_env (init_state example_settings) (example_view 1 0 [])) 1
       = None"
  by (simp add: hit_last_hit_times hit_q_clock example_view_def init_state_def)

subsection \<open>C3: a completion after the view was closed\<close>

text \<open>
  C3 (as amended). \<open>on_close\<close> leaves no entry for the view in the structures of the
  plugin nor in \<open>persist.errors\<close> and \<open>persist.highlights\<close>. A completion that arrives
  afterwards with a hit time \<open>t \<ge> 0\<close> (every minted hit time is positive) is not taken as
  stale: \<open>highlight\<close> commits it as it does for an open view, storing a highlight set and
  an errors dictionary under the id again and drawing the marks. It adds no entry to the
  four structures of the plugin itself.
\<close>
theorem C3_completion_after_close_commits:
  assumes "on_close s view = Inr s1" and "0 \<le> t"
  shows "vid view \<notin> loaded_views s1 \<and> vid view \<notin> linted_views s1
       \<and> view_syntax s1 (vid view) = None \<and> last_hit_times s1 (vid view) = None
       \<and> p_errors s1 (vid view) = None \<and> p_highlights s1 (vid view) = None
       \<and> (\<exists>st. highlight s1 view linters (Some t) =
            Inr (s1\<lparr>p_highlights := (p_highlights s1)(vid view \<mapsto> fst (merge_results linters)),
                    marks := (marks s1)(vid view := concat (fst (merge_results linters))),
                    p_errors := (p_errors s1)(vid view \<mapsto> snd (merge_results linters)),
                    status := st\<rparr>))"
proof -
  from assms(1) have s1: "s1 = closed_state s view" by (simp add: on_close_closed_state)
  show ?thesis
    unfolding s1 using closed_state_purged [of view s] completion_after_close [OF assms(2)]
    by simp
qed

theorem C3_completion_after_close_commits_witness:
  "on_close (hit example_env (init_state example_settings) (example_view 1 10 []))
       (example_view 1 10 [])
     = Inr (closed_state (hit example_env (init_state example_settings) (example_view 1 10 []))
              (example_view 1 10 []))
   \<and> (\<exists>st. highlight
             (closed_state (hit example_env (init_state example_settings) (example_view 1 10 []))
                (example_view 1 10 []))
             (example_view 1 10 []) [linter_B] (Some 1) =
          Inr ((closed_state (hit example_env (init_state example_settings) (example_view 1 10 []))
                  (example_view 1 10 []))
                 \<lparr>p_highlights :=
                    (p_highlights
                       (closed_state (hit example_env (init_state example_settings)
                          (example_view 1 10 [])) (example_view 1 10 [])))
                    (1 \<mapsto> [[(4, 50, 53)]]),
                  marks :=
                    (marks
                       (closed_state (hit example_env (init_state example_settings)
                          (example_view 1 10 [])) (example_view 1 10 [])))
                    (1 := [(4, 50, 53)]),
                  p_errors :=
                    (p_errors
                       (closed_state (hit example_env (init_state example_settings)
                          (example_view 1 10 [])) (example_view 1 10 [])))
                    (1 \<mapsto> [(4, [(2, ''second'')])]),
                  status := st\<rparr>))"
  using C3_completion_after_close_commits
    [of "hit example_env (init_state example_settings) (example_view 1 10 [])"
        "example_view 1 10 []"
        "closed_state (hit example_env (init_state example_settings) (example_view 1 10 []))
           (example_view 1 10 [])" 1 "[linter_B]"]
  by (simp add: on_close_closed_state example_view_def)

text \<open>C3 as the spec states it fails: the view is hit and closed, then the analysis of
  the hit completes. The completion is committed under the purged id.\<close>
theorem C3_counterexample:
  "\<exists>s1 s2.
     on_close (hit example_env (init_state example_settings) (example_view 1 10 []))
       (example_view 1 10 []) = Inr s1
   \<and> p_errors s1 1 = None \<and> p_highlights s1 1 = None
   \<and> highlight s1 (example_view 1 10 []) [linter_B] (Some 1) = Inr s2
   \<and> p_errors s2 1 = Some [(4, [(2, ''second'')])]
   \<and> p_highlights s2 1 = Some [[(4, 50, 53)]]
   \<and> marks s2 1 = [(4, 50, 53)]"
proof -
  let ?v = "example_view 1 10 []"
  let ?s1 = "closed_state (hit example_env (init_state example_settings) ?v) ?v"
  have va: "vid ?v = 1" by (simp add: example_view_def)
  obtain st where h: "highlight ?s1 ?v [linter_B] (Some 1) =
      Inr (?s1\<lparr>p_highlights := (p_highlights ?s1)(1 \<mapsto> [[(4, 50, 53)]]),
               marks := (marks ?s1)(1 := [(4, 50, 53)]),
               p_errors := (p_errors ?s1)(1 \<mapsto> [(4, [(2, ''second'')])]),
               status := st\<rparr>)"
    using completion_after_close [of 1 "hit example_env (init_state example_settings) ?v" ?v "[linter_B]"]
      va by auto
  show ?thesis
    using h closed_state_purged [of ?v "hit example_env (init_state example_settings) ?v"] va
    by (simp add: on_close_closed_state)
qed

subsection \<open>C4: hit times only grow\<close>

text \<open>
  C4. In every state the plugin can reach, a run of events that does not close the view
  (its lifetime) never lets the stored \<open>last_hit_times\<close> entry of the view go back: no
  entry may become an entry, and an entry only grows. And of two calls of \<open>hit\<close> for a
  non-empty view, with any run of events between them, the second stores a hit time that
  is strictly greater than the one the first stored. \<open>hit\<close> itself returns nothing; the
  timestamp it takes from \<open>persist.queue.hit\<close> is read where it stores it.
\<close>
theorem C4_hit_times_increase:
  "(run (init_state cfg) es0 = Inr s \<and> run s es = Inr s'
      \<and> list_all (\<lambda>p. \<not> closes v (snd p)) es \<longrightarrow>
        hit_time_le (last_hit_times s v) (last_hit_times s' v))
   \<and> (0 < view_size view \<and> 0 < view_size view' \<and> vid view' = vid view
      \<and> run (hit env s1 view) es1 = Inr s2 \<longrightarrow>
        (\<exists>t1 t2. last_hit_times (hit env s1 view) (vid view) = Some t1
               \<and> last_hit_times (hit env' s2 view') (vid view) = Some t2
               \<and> t1 < t2))"
proof (intro conjI impI)
  assume a: "run (init_state cfg) es0 = Inr s \<and> run s es = Inr s'
      \<and> list_all (\<lambda>p. \<not> closes v (snd p)) es"
  then have "times_minted s" using reachable_minted by blast
  with a have "keeps v s s'" using run_keeps by blast
  with \<open>times_minted s\<close> show "hit_time_le (last_hit_times s v) (last_hit_times s' v)"
    by (simp add: keeps_def)
next
  assume b: "0 < view_size view \<and> 0 < view_size view' \<and> vid view' = vid view
      \<and> run (hit env s1 view) es1 = Inr s2"
  then have "q_clock (hit env s1 view) \<le> q_clock s2" using run_clock_minted by blast
  moreover have "last_hit_times (hit env s1 view) (vid view) = Some (q_clock s1 + 1)"
    using b by (simp add: hit_last_hit_times)
  moreover have "q_clock (hit env s1 view) = q_clock s1 + 1"
    using b by (simp add: hit_q_clock)
  moreover have "last_hit_times (hit env' s2 view') (vid view) = Some (q_clock s2 + 1)"
    using b by (simp add: hit_last_hit_times)
  ultimately show "\<exists>t1 t2. last_hit_times (hit env s1 view) (vid view) = Some t1
               \<and> last_hit_times (hit env' s2 view') (vid view) = Some t2
               \<and> t1 < t2"
    by simp
qed

theorem C4_hit_times_increase_witness:
  "hit_time_le (last_hit_times (init_state example_settings) 1)
     (last_hit_times (hit example_env (init_state example_settings) (example_view 1 10 [])) 1)
   \<and> (\<exists>t1 t2.
        last_hit_times (hit example_env (init_state example_settings) (example_view 1 10 [])) 1
          = Some t1
      \<and> last_hit_times
          (hit example_env
             (on_modified example_env
                (hit example_env (init_state example_settings) (example_view 1 10 []))
                (example_view 1 12 []))
             (example_view 1 12 [])) 1 = Some t2
      \<and> t1 < t2)"
  using C4_hit_times_increase
    [of example_settings "[]" "init_state example_settings"
        "[(example_env, Hit (example_view 1 10 []))]"
        "hit example_env (init_state example_settings) (example_view 1 10 [])" 1
        "example_view 1 10 []" "example_view 1 12 []" example_env
        "init_state example_settings"
        "[(example_env, OnModified (example_view 1 12 []))]"
        "on_modified example_env
                (hit example_env (init_state example_settings) (example_view 1 10 []))
                (example_view 1 12 [])"
        example_env]
  by (simp add: example_view_def)

subsection \<open>C5: check_syntax\<close>

text \<open>
  C5. \<open>check_syntax\<close> returns true exactly when no syntax is recorded for the view or the
  recorded one differs from the syntax of the view. When it returns true, the state it
  leaves has the new syntax recorded, the linters of the registry for that syntax bound to
  the view, and no stored errors, no stored highlight set, no marks and no status for the
  view; no analysis was started or enqueued for this. When it returns false the state is
  unchanged.
\<close>
theorem C5_check_syntax:
  "(fst (check_syntax env s view) \<longleftrightarrow>
       view_syntax s (vid view) = None
       \<or> (\<exists>old. view_syntax s (vid view) = Some old \<and> old \<noteq> persist_syntax view))
   \<and> (fst (check_syntax env s view) \<longrightarrow>
         view_syntax (snd (check_syntax env s view)) (vid view) = Some (persist_syntax view)
       \<and> Linter_get_linters (snd (check_syntax env s view)) (vid view)
           = env_checkers env (persist_syntax view)
       \<and> p_errors (snd (check_syntax env s view)) (vid view) = None
       \<and> p_highlights (snd (check_syntax env s view)) (vid view) = None
       \<and> marks (snd (check_syntax env s view)) (vid view) = []
       \<and> status (snd (check_syntax env s view)) (vid view) = None
       \<and> lint_view_calls (snd (check_syntax env s view)) = lint_view_calls s
       \<and> q_pending (snd (check_syntax env s view)) = q_pending s)
   \<and> (\<not> fst (check_syntax env s view) \<longrightarrow> snd (check_syntax env s view) = s)"
proof -
  have a: "fst (check_syntax env s view) \<longleftrightarrow>
       view_syntax s (vid view) = None
       \<or> (\<exists>old. view_syntax s (vid view) = Some old \<and> old \<noteq> persist_syntax view)"
    by (cases "view_syntax s (vid view)") (auto simp: check_syntax_def Let_def dom_def)
  have b: "fst (check_syntax env s view) \<Longrightarrow>
         view_syntax (snd (check_syntax env s view)) (vid view) = Some (persist_syntax view)
       \<and> Linter_get_linters (snd (check_syntax env s view)) (vid view)
           = env_checkers env (persist_syntax view)
       \<and> p_errors (snd (check_syntax env s view)) (vid view) = None
       \<and> p_highlights (snd (check_syntax env s view)) (vid view) = None
       \<and> marks (snd (check_syntax env s view)) (vid view) = []
       \<and> status (snd (check_syntax env s view)) (vid view) = None"
    by (auto simp: check_syntax_def Let_def clear_def Linter_clear_view_def Linter_assign_def
        Linter_get_linters_def split: if_splits)
  have c: "\<not> fst (check_syntax env s view) \<Longrightarrow> snd (check_syntax env s view) = s"
    by (auto simp: check_syntax_def Let_def split: if_splits)
  show ?thesis using a b c by simp
qed

theorem C5_check_syntax_witness:
  "view_syntax (with_errors (init_state example_settings) 1 [(3, [(0, ''a'')])]) 1 = None
   \<and> fst (check_syntax example_env (with_errors (init_state example_settings) 1 [(3, [(0, ''a'')])])
          (example_view 1 10 []))
   \<and> view_syntax (snd (check_syntax example_env
          (with_errors (init_state example_settings) 1 [(3, [(0, ''a'')])]) (example_view 1 10 []))) 1
       = Some ''Python''
   \<and> p_errors (snd (check_syntax example_env
          (with_errors (init_state example_settings) 1 [(3, [(0, ''a'')])]) (example_view 1 10 []))) 1
       = None
   \<and> \<not> fst (check_syntax example_env
          (snd (check_syntax example_env
             (with_errors (init_state example_settings) 1 [(3, [(0, ''a'')])]) (example_view 1 10 [])))
          (example_view 1 10 []))"
  using
    C5_check_syntax [of example_env "with_errors (init_state example_settings) 1 [(3, [(0, ''a'')])]"
      "example_view 1 10 []"]
    C5_check_syntax [of example_env
      "snd (check_syntax example_env
             (with_errors (init_state example_settings) 1 [(3, [(0, ''a'')])]) (example_view 1 10 []))"
      "example_view 1 10 []"]
  by (simp add: with_errors_def init_state_def example_view_def persist_syntax_def)

subsection \<open>C6: the format of the status line\<close>

text \<open>
  C6. For the diagnostics \<open>{2: [bad indent], 5: [unused var, missing semicolon]}\<close>
  (the two diagnostics of line 5 in the order of their columns) the status becomes
  "2-3 of 3 errors: unused var; missing semicolon" with the cursor on line 5,
  "1 of 3 errors: bad indent" on line 2 and "3 errors" on line 9. When the dictionary has
  one diagnostic in all and the cursor is on one of its lines, the text begins with
  "Error: ". A stored empty dictionary erases the status.
\<close>
theorem C6_status_formatting:
  "(c2 \<le> c3 \<and> p_errors s (vid view) = Some (spec_example c1 c2 c3) \<longrightarrow>
       (first_sel_line view = Inr 5 \<longrightarrow>
          on_selection_modified_async s view =
            Inr (set_status s (vid view) ''2-3 of 3 errors: unused var; missing semicolon''))
     \<and> (first_sel_line view = Inr 2 \<longrightarrow>
          on_selection_modified_async s view =
            Inr (set_status s (vid view) ''1 of 3 errors: bad indent''))
     \<and> (first_sel_line view = Inr 9 \<longrightarrow>
          on_selection_modified_async s view = Inr (set_status s (vid view) ''3 errors'')))
   \<and> (p_errors s (vid view) = Some d \<and> distinct (map fst d) \<and> total_count d = 1
        \<and> first_sel_line view = Inr l \<and> l \<in> set (map fst d) \<longrightarrow>
          (\<exists>rest. on_selection_modified_async s view
                     = Inr (set_status s (vid view) (''Error: '' @ rest))))
   \<and> (p_errors s (vid view) = Some [] \<longrightarrow>
          on_selection_modified_async s view = Inr (erase_status s (vid view))
        \<and> status (erase_status s (vid view)) (vid view) = None)"
proof -
  have ex5: "c2 \<le> c3 \<Longrightarrow> status_text (spec_example c1 c2 c3) 5
      = Inr ''2-3 of 3 errors: unused var; missing semicolon''"
    by (simp add: status_text_def spec_example_def errors_at_def Let_def)
  have ex2: "status_text (spec_example c1 c2 c3) 2 = Inr ''1 of 3 errors: bad indent''"
    by (simp add: status_text_def spec_example_def errors_at_def Let_def)
  have ex9: "status_text (spec_example c1 c2 c3) 9 = Inr ''3 errors''"
    by (simp add: status_text_def spec_example_def errors_at_def Let_def)
  have ne: "spec_example c1 c2 c3 \<noteq> []" by (simp add: spec_example_def)
  have single: "distinct (map fst d) \<Longrightarrow> total_count d = 1 \<Longrightarrow> l \<in> set (map fst d) \<Longrightarrow>
      status_text d l = Inr (''Error: '' @ join ''; '' (map snd (sort_key fst (errors_at d l))))"
    by (simp add: status_text_def Let_def count_sorted_keys)
  have single_ne: "l \<in> set (map fst d) \<Longrightarrow> d \<noteq> []" by auto
  show ?thesis
    using ex5 ex2 ex9 ne single single_ne osm_cursor_line osm_empty_mapping
    by (simp add: erase_status_def) blast
qed

theorem C6_status_formatting_witness:
  "on_selection_modified_async (with_errors (init_state example_settings) 1 (spec_example 0 4 9))
       (example_view 1 10 [(400, 400)])
     = Inr (set_status (with_errors (init_state example_settings) 1 (spec_example 0 4 9)) 1
              ''2-3 of 3 errors: unused var; missing semicolon'')
   \<and> on_selection_modified_async (with_errors (init_state example_settings) 1 (spec_example 0 4 9))
       (example_view 1 10 [(160, 165)])
     = Inr (set_status (with_errors (init_state example_settings) 1 (spec_example 0 4 9)) 1
              ''1 of 3 errors: bad indent'')
   \<and> on_selection_modified_async (with_errors (init_state example_settings) 1 (spec_example 0 4 9))
       (example_view 1 10 [(720, 720)])
     = Inr (set_status (with_errors (init_state example_settings) 1 (spec_example 0 4 9)) 1
              ''3 errors'')
   \<and> (\<exists>rest. on_selection_modified_async
                (with_errors (init_state example_settings) 1 [(7, [(0, ''x'')])])
                (example_view 1 10 [(560, 560)])
              = Inr (set_status (with_errors (init_state example_settings) 1 [(7, [(0, ''x'')])]) 1
                       (''Error: '' @ rest)))
   \<and> on_selection_modified_async (with_errors (init_state example_settings) 1 [])
       (example_view 1 10 [(0, 0)])
     = Inr (erase_status (with_errors (init_state example_settings) 1 []) 1)"
  using
    C6_status_formatting [of 4 9 "with_errors (init_state example_settings) 1 (spec_example 0 4 9)"
      "example_view 1 10 [(400, 400)]" 0]
    C6_status_formatting [of 4 9 "with_errors (init_state example_settings) 1 (spec_example 0 4 9)"
      "example_view 1 10 [(160, 165)]" 0]
    C6_status_formatting [of 4 9 "with_errors (init_state example_settings) 1 (spec_example 0 4 9)"
      "example_view 1 10 [(720, 720)]" 0]
    C6_status_formatting [of 4 9 "with_errors (init_state example_settings) 1 [(7, [(0, ''x'')])]"
      "example_view 1 10 [(560, 560)]" 0 "[(7, [(0, ''x'')])]" 7]
    C6_status_formatting [of 4 9 "with_errors (init_state example_settings) 1 []"
      "example_view 1 10 [(0, 0)]" 0]
  by (simp add: example_view_def with_errors_def first_sel_line_def region_begin_def
      total_count_def)

subsection \<open>C7: the status text and the order of the linters\<close>

text \<open>
  C7 (as amended). Let two completions deliver the same linters in two orders. If no two
  diagnostics of the merged errors on the line of the cursor have the same column, the
  status text computed for that line is the same for both orders, and so is the status
  \<open>highlight\<close> leaves. (Diagnostics of one column keep the order in which the linters were
  merged: the sort by column is stable.)
\<close>
theorem C7_status_independent_of_checker_order:
  assumes "mset ls' = mset ls"
    and "distinct (map fst (errors_at (snd (merge_results ls)) (cursor_line view)))"
  shows "status_text (snd (merge_results ls')) (cursor_line view)
           = status_text (snd (merge_results ls)) (cursor_line view)
       \<and> (\<exists>s1 s2. highlight s view ls ht = Inr s1 \<and> highlight s view ls' ht = Inr s2
                 \<and> status s2 = status s1)"
proof -
  have "status_text (snd (merge_results ls')) (cursor_line view)
           = status_text (snd (merge_results ls)) (cursor_line view)"
    using distinct_merged distinct_merged keys_merged_perm [OF assms(1)]
      mset_errors_at_merged [OF assms(1)] assms(2)
    by (rule status_text_perm)
  moreover obtain s1 where s1: "highlight s view ls ht = Inr s1" using highlight_total by blast
  moreover obtain s2 where s2: "highlight s view ls' ht = Inr s2" using highlight_total by blast
  moreover have "status s2 = status s1"
    using assms s1 s2 by (rule highlight_status_perm)
  ultimately show ?thesis by blast
qed

theorem C7_status_independent_of_checker_order_witness:
  "mset [linter_Q 7, linter_P 3] = mset [linter_P 3, linter_Q 7]
   \<and> status_text (snd (merge_results [linter_Q 7, linter_P 3])) 5
       = status_text (snd (merge_results [linter_P 3, linter_Q 7])) 5
   \<and> (\<exists>s1 s2. highlight (init_state example_settings) (example_view 1 10 [(400, 400)])
                 [linter_P 3, linter_Q 7] None = Inr s1
             \<and> highlight (init_state example_settings) (example_view 1 10 [(400, 400)])
                 [linter_Q 7, linter_P 3] None = Inr s2
             \<and> status s2 = status s1)"
  using C7_status_independent_of_checker_order
    [of "[linter_Q 7, linter_P 3]" "[linter_P 3, linter_Q 7]" "example_view 1 10 [(400, 400)]"
        "init_state example_settings" None]
  by (simp add: cursor_line_def first_sel_line_def region_begin_def example_view_def
      errors_at_def add.commute)

text \<open>C7 as the spec states it fails: two linters report one diagnostic each on line 5
  at column 3; the cursor is on line 5. The two orders of the linters give two texts.\<close>
theorem C7_counterexample:
  "mset [linter_Q 3, linter_P 3] = mset [linter_P 3, linter_Q 3]
   \<and> (\<exists>s1 s2. highlight (init_state example_settings) (example_view 1 10 [(400, 400)])
                 [linter_P 3, linter_Q 3] None = Inr s1
             \<and> highlight (init_state example_settings) (example_view 1 10 [(400, 400)])
                 [linter_Q 3, linter_P 3] None = Inr s2
             \<and> status s1 1 = Some ''1-2 of 2 errors: unused import; line too long''
             \<and> status s2 1 = Some ''1-2 of 2 errors: line too long; unused import'')"
proof -
  let ?v = "example_view 1 10 [(400, 400)]"
  let ?s = "init_state example_settings"
  have l: "first_sel_line ?v = Inr 5" "vid ?v = 1"
    by (simp_all add: first_sel_line_def region_begin_def example_view_def)
  have t1: "status_text [(5, [(3, ''unused import''), (3, ''line too long'')])] 5
      = Inr ''1-2 of 2 errors: unused import; line too long''"
    by (simp add: status_text_def errors_at_def Let_def)
  have t2: "status_text [(5, [(3, ''line too long''), (3, ''unused import'')])] 5
      = Inr ''1-2 of 2 errors: line too long; unused import''"
    by (simp add: status_text_def errors_at_def Let_def)
  have h1: "highlight ?s ?v [linter_P 3, linter_Q 3] None =
      Inr (set_status
        (?s\<lparr>p_highlights := (p_highlights ?s)(1 \<mapsto> []), marks := (marks ?s)(1 := []),
            p_errors := (p_errors ?s)(1 \<mapsto> [(5, [(3, ''unused import''), (3, ''line too long'')])])\<rparr>)
        1 ''1-2 of 2 errors: unused import; line too long'')"
    using l t1 by (simp add: highlight_untimed osm_cursor_line)
  have h2: "highlight ?s ?v [linter_Q 3, linter_P 3] None =
      Inr (set_status
        (?s\<lparr>p_highlights := (p_highlights ?s)(1 \<mapsto> []), marks := (marks ?s)(1 := []),
            p_errors := (p_errors ?s)(1 \<mapsto> [(5, [(3, ''line too long''), (3, ''unused import'')])])\<rparr>)
        1 ''1-2 of 2 errors: line too long; unused import'')"
    using l t2 by (simp add: highlight_untimed osm_cursor_line)
  show ?thesis unfolding h1 h2 by (simp add: set_status_def add.commute)
qed

subsection \<open>C8: the status line without a selection\<close>

text \<open>
  C8. For a view with no selection and a stored, non-empty errors dictionary whose lines
  are all non-negative, the status computation does not fail: the \<open>IndexError\<close> of the
  empty selection is caught, the line is taken as \<open>-1\<close>, which is no line of the
  dictionary, and the status becomes the total count, "<count> error" with an "s" when the
  count is more than one.
\<close>
theorem C8_no_selection_total_count:
  assumes "p_errors s (vid view) = Some d" and "d \<noteq> []" and "distinct (map fst d)"
    and "\<forall>line\<in>set (map fst d). 0 \<le> line" and "sel view = []"
  shows "first_sel_line view = Inl IndexError \<and>
         on_selection_modified_async s view =
           Inr (set_status s (vid view)
                  (str_nat (total_count d) @ '' error'' @ (if total_count d > 1 then ''s'' else '''')))"
proof -
  have "- 1 \<notin> set (map fst d)" using assms(4) by fastforce
  then have "status_text d (- 1) =
      Inr (str_nat (total_count d) @ '' error'' @ (if total_count d > 1 then ''s'' else ''''))"
    using assms(3) by (simp add: status_text_def Let_def count_sorted_keys)
  then show ?thesis using assms(1,2,5) osm_no_selection
    by (simp add: first_sel_line_def)
qed

theorem C8_no_selection_total_count_witness:
  "sel (example_view 1 10 []) = [] \<and>
   on_selection_modified_async
       (with_errors (init_state example_settings) 1 [(3, [(0, ''a''), (4, ''b'')])])
       (example_view 1 10 [])
     = Inr (set_status (with_errors (init_state example_settings) 1 [(3, [(0, ''a''), (4, ''b'')])])
              1 ''2 errors'')"
  using C8_no_selection_total_count
    [of "with_errors (init_state example_settings) 1 [(3, [(0, ''a''), (4, ''b'')])]"
        "example_view 1 10 []" "[(3, [(0, ''a''), (4, ''b'')])]"]
  by (simp add: example_view_def with_errors_def total_count_def)

subsection \<open>C9: on_close\<close>

text \<open>
  C9. For every state and view, \<open>on_close\<close> returns without raising, whichever of the
  view's entries are there; it takes the id out of \<open>loaded_views\<close> and \<open>linted_views\<close> and
  deletes its entries of \<open>view_syntax\<close> and \<open>last_hit_times\<close>, so that afterwards none of
  the four structures has an entry for the id.
\<close>
theorem C9_on_close_purges_tracker:
  "\<exists>s'. on_close s view = Inr s'
      \<and> loaded_views s' = loaded_views s - {vid view}
      \<and> linted_views s' = linted_views s - {vid view}
      \<and> view_syntax s' = (view_syntax s)(vid view := None)
      \<and> last_hit_times s' = (last_hit_times s)(vid view := None)
      \<and> vid view \<notin> loaded_views s' \<and> vid view \<notin> linted_views s'
      \<and> vid view \<notin> dom (view_syntax s') \<and> vid view \<notin> dom (last_hit_times s')"
  by (simp add: on_close_result persist_view_did_close_def)

subsection \<open>C10: a completion without a hit time\<close>

text \<open>
  C10. A completion that carries no hit time (\<open>hit_time\<close> is \<open>None\<close>) is committed in
  every state, whatever \<open>last_hit_times\<close> holds for the view: the fresh highlight set is
  stored, the marks of the view are cleared and drawn from it, the merged errors replace
  the stored dictionary and the status is updated. Such completions come from
  \<open>on_post_save\<close>: every analysis it starts itself is started with hit time \<open>None\<close>.
\<close>
theorem C10_untimed_completion_commits:
  "(\<exists>st. highlight s view linters None =
      Inr (s\<lparr>p_highlights := (p_highlights s)(vid view \<mapsto> fst (merge_results linters)),
             marks := (marks s)(vid view := concat (fst (merge_results linters))),
             p_errors := (p_errors s)(vid view \<mapsto> snd (merge_results linters)),
             status := st\<rparr>))
   \<and> (on_post_save env s view = Inr s' \<longrightarrow>
        (\<exists>new. lint_view_calls s' = lint_view_calls s @ new
               \<and> list_all (\<lambda>c. snd (snd c) = None) new))"
  using osm_changes_status_only on_post_save_untimed by (simp add: highlight_untimed)

theorem C10_untimed_completion_commits_witness:
  "on_post_save example_env (init_state example_settings) (example_view 1 10 [])
     = Inr (lint example_env
              (clear (snd (check_syntax example_env (init_state example_settings)
                             (example_view 1 10 [])))
                 (example_view 1 10 []))
              1 None)
   \<and> (\<exists>new. lint_view_calls
               (lint example_env
                  (clear (snd (check_syntax example_env (init_state example_settings)
                                 (example_view 1 10 [])))
                     (example_view 1 10 []))
                  1 None)
             = lint_view_calls (init_state example_settings) @ new
            \<and> list_all (\<lambda>c. snd (snd c) = None) new)"
  using C10_untimed_completion_commits
    [of "init_state example_settings" "example_view 1 10 []" "[]" example_env
        "lint example_env
              (clear (snd (check_syntax example_env (init_state example_settings)
                             (example_view 1 10 [])))
                 (example_view 1 10 []))
              1 None"]
    ex_post_save
  by simp

end
